theory Spec2Isabelle
  imports Main
begin

section \<open>The store: the SQLite tables of \<^verbatim>\<open>INIT_SQL\<close>\<close>

text \<open>
  The bridge keeps all durable state in one SQLite database. Each table is a list of
  rows in rowid order; a \<^verbatim>\<open>fetchone()\<close> on a \<^verbatim>\<open>SELECT\<close> is the first row of
  the list that satisfies the \<^verbatim>\<open>WHERE\<close> clause. A nullable column is an \<open>option\<close>
  (SQL \<^verbatim>\<open>NULL\<close> is \<open>None\<close> and never equals a bound parameter). The 0/1 integer
  columns \<^verbatim>\<open>consumed\<close> and \<^verbatim>\<open>enabled\<close> are booleans. A \<^verbatim>\<open>datetime\<close> is the number of
  microseconds since the epoch (UTC); \<^verbatim>\<open>isoformat\<close> and \<^verbatim>\<open>fromisoformat\<close> are
  inverse to each other on it. Every \<^verbatim>\<open>datetime.now\<close> is a parameter \<open>now\<close>.
  Integers are Python's unbounded integers; the model does not cover ids outside the 64
  bits of an SQLite \<^verbatim>\<open>INTEGER\<close>, which the database binding refuses.

  The source never issues \<^verbatim>\<open>PRAGMA foreign_keys = ON\<close>, so SQLite neither enforces the
  \<^verbatim>\<open>FOREIGN KEY\<close> clauses nor cascades a delete. The \<^verbatim>\<open>UNIQUE\<close>, \<^verbatim>\<open>PRIMARY KEY\<close>
  and \<^verbatim>\<open>CHECK\<close> constraints are enforced statement by statement: a violating statement
  raises \<^verbatim>\<open>sqlite3.IntegrityError\<close>.
\<close>

type_synonym datetime = int

datatype error = IntegrityError | AttributeError | ValueError

record user_row =
  u_id :: int
  u_tg_user_id :: "int option"
  u_bale_user_id :: "int option"
  u_dm_target_bale_chat_id :: "int option"
  u_dm_target_telegram_chat_id :: "int option"
  u_created_at :: datetime

record chat_row =
  c_id :: int
  c_owner_user_id :: int
  c_platform :: string
  c_chat_type :: string
  c_chat_id :: int
  c_title :: "string option"
  c_created_at :: datetime

record group_link_row =
  gl_id :: int
  gl_owner_user_id :: int
  gl_tg_group_id :: int
  gl_bale_group_id :: int
  gl_enabled :: bool
  gl_created_at :: datetime

record channel_link_row =
  cl_id :: int
  cl_owner_user_id :: int
  cl_tg_channel_id :: int
  cl_bale_channel_id :: int
  cl_enabled :: bool
  cl_created_at :: datetime

record verify_token_row =
  vt_code :: string
  vt_owner_user_id :: int
  vt_platform :: string
  vt_chat_type :: string
  vt_platform_user_id :: int
  vt_expires_at :: datetime
  vt_consumed :: bool

record dm_verify_token_row =
  dt_code :: string
  dt_owner_user_id :: int
  dt_target_platform :: string
  dt_target_chat_id :: int
  dt_expires_at :: datetime
  dt_consumed :: bool

text \<open>
  The \<open>_seq\<close> fields are the \<^verbatim>\<open>sqlite_sequence\<close> entries of the four
  \<^verbatim>\<open>AUTOINCREMENT\<close> tables.
\<close>

record store =
  users :: "user_row list"
  users_seq :: int
  chats :: "chat_row list"
  chats_seq :: int
  group_links :: "group_link_row list"
  group_links_seq :: int
  channel_links :: "channel_link_row list"
  channel_links_seq :: int
  verify_tokens :: "verify_token_row list"
  dm_verify_tokens :: "dm_verify_token_row list"

definition empty_store :: store where
  "empty_store = \<lparr>users = [], users_seq = 0, chats = [], chats_seq = 0,
     group_links = [], group_links_seq = 0, channel_links = [], channel_links_seq = 0,
     verify_tokens = [], dm_verify_tokens = []\<rparr>"

text \<open>
  \<^verbatim>\<open>INTEGER PRIMARY KEY AUTOINCREMENT\<close>: the new rowid is one more than the largest
  rowid the table has ever held.
\<close>

definition next_rowid :: "int \<Rightarrow> int list \<Rightarrow> int" where
  "next_rowid seq ids = fold max ids seq + 1"

text \<open>Python truthiness of an \<^verbatim>\<open>Optional[int]\<close>: \<^verbatim>\<open>None\<close> and \<^verbatim>\<open>0\<close> are false.\<close>

definition truthy :: "int option \<Rightarrow> bool" where
  "truthy x = (case x of None \<Rightarrow> False | Some i \<Rightarrow> i \<noteq> 0)"

subsection \<open>User management\<close>

text \<open>\<^verbatim>\<open>SELECT id FROM users WHERE tg_user_id=?\<close> and its Bale twin.\<close>

definition select_user_id_by_tg :: "store \<Rightarrow> int \<Rightarrow> int option" where
  "select_user_id_by_tg d tg_user_id =
     map_option u_id (find (\<lambda>r. u_tg_user_id r = Some tg_user_id) (users d))"

definition select_user_id_by_bale :: "store \<Rightarrow> int \<Rightarrow> int option" where
  "select_user_id_by_bale d bale_user_id =
     map_option u_id (find (\<lambda>r. u_bale_user_id r = Some bale_user_id) (users d))"

text \<open>
  \<^verbatim>\<open>INSERT INTO users (tg_user_id, created_at)\<close> or \<^verbatim>\<open>(bale_user_id, created_at)\<close>:
  the unique indexes \<^verbatim>\<open>idx_users_tg\<close> and \<^verbatim>\<open>idx_users_bale\<close> reject a second row
  with the same non-null identity.
\<close>

definition insert_user :: "store \<Rightarrow> int option \<Rightarrow> int option \<Rightarrow> datetime \<Rightarrow> error + store" where
  "insert_user d tg bale now =
     (if (tg \<noteq> None \<and> list_ex (\<lambda>r. u_tg_user_id r = tg) (users d))
        \<or> (bale \<noteq> None \<and> list_ex (\<lambda>r. u_bale_user_id r = bale) (users d))
      then Inl IntegrityError
      else (let i = next_rowid (users_seq d) (map u_id (users d)) in
        Inr (d\<lparr>users := users d @
                 [\<lparr>u_id = i, u_tg_user_id = tg, u_bale_user_id = bale,
                   u_dm_target_bale_chat_id = None, u_dm_target_telegram_chat_id = None,
                   u_created_at = now\<rparr>],
               users_seq := i\<rparr>)))"

lemma find_append_new:
  "P x \<Longrightarrow> \<exists>y. find P (xs @ [x]) = Some y"
  by (induction xs) auto

lemma select_tg_after_insert:
  assumes "insert_user d (Some tg) bale now = Inr d'"
  shows "select_user_id_by_tg d' tg \<noteq> None"
proof -
  obtain row where "users d' = users d @ [row]" and "u_tg_user_id row = Some tg"
    using assms by (auto simp: insert_user_def Let_def split: if_splits)
  then show ?thesis
    using find_append_new [of "\<lambda>r. u_tg_user_id r = Some tg" row "users d"]
    by (auto simp: select_user_id_by_tg_def)
qed

lemma select_bale_after_insert:
  assumes "insert_user d tg (Some bale) now = Inr d'"
  shows "select_user_id_by_bale d' bale \<noteq> None"
proof -
  obtain row where "users d' = users d @ [row]" and "u_bale_user_id row = Some bale"
    using assms by (auto simp: insert_user_def Let_def split: if_splits)
  then show ?thesis
    using find_append_new [of "\<lambda>r. u_bale_user_id r = Some bale" row "users d"]
    by (auto simp: select_user_id_by_bale_def)
qed

function get_or_create_user_by_tg :: "store \<Rightarrow> datetime \<Rightarrow> int \<Rightarrow> error + (store \<times> int)" where
  "get_or_create_user_by_tg d now tg_user_id =
     (case select_user_id_by_tg d tg_user_id of
        Some i \<Rightarrow> Inr (d, i)
      | None \<Rightarrow>
          (case insert_user d (Some tg_user_id) None now of
             Inl e \<Rightarrow> Inl e
           | Inr d' \<Rightarrow> get_or_create_user_by_tg d' now tg_user_id))"
  by pat_completeness auto
termination
  by (relation "measure (\<lambda>(d, now, tg). if select_user_id_by_tg d tg = None then 1 else 0)")
     (auto dest: select_tg_after_insert)

function get_or_create_user_by_bale :: "store \<Rightarrow> datetime \<Rightarrow> int \<Rightarrow> error + (store \<times> int)" where
  "get_or_create_user_by_bale d now bale_user_id =
     (case select_user_id_by_bale d bale_user_id of
        Some i \<Rightarrow> Inr (d, i)
      | None \<Rightarrow>
          (case insert_user d None (Some bale_user_id) now of
             Inl e \<Rightarrow> Inl e
           | Inr d' \<Rightarrow> get_or_create_user_by_bale d' now bale_user_id))"
  by pat_completeness auto
termination
  by (relation "measure (\<lambda>(d, now, b). if select_user_id_by_bale d b = None then 1 else 0)")
     (auto dest: select_bale_after_insert)

declare get_or_create_user_by_tg.simps [simp del]
declare get_or_create_user_by_bale.simps [simp del]

subsection \<open>Verify code management\<close>

text \<open>
  \<^verbatim>\<open>gen_code\<close> draws six characters with \<^verbatim>\<open>random.choices\<close> from the 36-character
  population \<^verbatim>\<open>string.ascii_uppercase + string.digits\<close>. The draw is the parameter
  \<open>picks\<close>: the six indices into the population.
\<close>

definition population :: string where
  "population = ''ABCDEFGHIJKLMNOPQRSTUVWXYZ0123456789''"

definition gen_code :: "string \<Rightarrow> nat list \<Rightarrow> string" where
  "gen_code prefix picks = prefix @ ''-'' @ map (\<lambda>i. population ! i) picks"

text \<open>\<^verbatim>\<open>timedelta(minutes=10)\<close> in microseconds.\<close>

definition ten_minutes :: int where
  "ten_minutes = 600000000"

text \<open>
  \<^verbatim>\<open>INSERT INTO verify_tokens\<close>: \<^verbatim>\<open>code\<close> is the primary key, and the two
  \<^verbatim>\<open>CHECK\<close> constraints restrict \<^verbatim>\<open>platform\<close> and \<^verbatim>\<open>chat_type\<close>.
\<close>

definition insert_verify_token :: "store \<Rightarrow> verify_token_row \<Rightarrow> error + store" where
  "insert_verify_token d t =
     (if list_ex (\<lambda>r. vt_code r = vt_code t) (verify_tokens d)
         \<or> vt_platform t \<notin> {''tg'', ''bale''}
         \<or> vt_chat_type t \<notin> {''group'', ''channel''}
      then Inl IntegrityError
      else Inr (d\<lparr>verify_tokens := verify_tokens d @ [t]\<rparr>))"

definition create_verify_code ::
  "store \<Rightarrow> datetime \<Rightarrow> int \<Rightarrow> string \<Rightarrow> string \<Rightarrow> int \<Rightarrow> nat list \<Rightarrow> error + (store \<times> string)" where
  "create_verify_code d now owner_user_id platform chat_type platform_user_id picks =
     (let code = gen_code (if chat_type = ''group'' then ''G'' else ''C'') picks;
          expires = now + ten_minutes
      in case insert_verify_token d
             \<lparr>vt_code = code, vt_owner_user_id = owner_user_id, vt_platform = platform,
              vt_chat_type = chat_type, vt_platform_user_id = platform_user_id,
              vt_expires_at = expires, vt_consumed = False\<rparr> of
           Inl e \<Rightarrow> Inl e
         | Inr d' \<Rightarrow> Inr (d', code))"

text \<open>
  \<^verbatim>\<open>consume_verify_code\<close>: the result is the store after the call and the returned
  value (\<^verbatim>\<open>None\<close> or the pair \<^verbatim>\<open>(owner_user_id, chat_type)\<close>).
\<close>

definition consume_verify_code ::
  "store \<Rightarrow> datetime \<Rightarrow> string \<Rightarrow> string \<Rightarrow> int \<Rightarrow> store \<times> (int \<times> string) option" where
  "consume_verify_code d now code platform platform_user_id =
     (case find (\<lambda>r. vt_code r = code \<and> vt_platform r = platform
                      \<and> vt_platform_user_id r = platform_user_id) (verify_tokens d) of
        None \<Rightarrow> (d, None)
      | Some row \<Rightarrow>
          if vt_consumed row then (d, None)
          else if vt_expires_at row < now then (d, None)
          else (d\<lparr>verify_tokens :=
                    map (\<lambda>r. if vt_code r = code then r\<lparr>vt_consumed := True\<rparr> else r)
                        (verify_tokens d)\<rparr>,
                Some (vt_owner_user_id row, vt_chat_type row)))"

text \<open>
  \<^verbatim>\<open>create_dm_verify_code\<close>: the code is \<^verbatim>\<open>"DM-" + uuid.uuid4().hex[:8].upper()\<close>.
  The random UUID is the parameter \<open>uuid_hex\<close>: the 32 hexadecimal digits of
  \<^verbatim>\<open>uuid4().hex\<close>, each a number below 16.
\<close>

definition hex_upper :: string where
  "hex_upper = ''0123456789ABCDEF''"

definition dm_code :: "nat list \<Rightarrow> string" where
  "dm_code uuid_hex = ''DM-'' @ map (\<lambda>n. hex_upper ! n) (take 8 uuid_hex)"

definition insert_dm_verify_token :: "store \<Rightarrow> dm_verify_token_row \<Rightarrow> error + store" where
  "insert_dm_verify_token d t =
     (if list_ex (\<lambda>r. dt_code r = dt_code t) (dm_verify_tokens d)
         \<or> dt_target_platform t \<notin> {''tg'', ''bale''}
      then Inl IntegrityError
      else Inr (d\<lparr>dm_verify_tokens := dm_verify_tokens d @ [t]\<rparr>))"

definition create_dm_verify_code ::
  "store \<Rightarrow> datetime \<Rightarrow> int \<Rightarrow> string \<Rightarrow> int \<Rightarrow> nat list \<Rightarrow> error + (store \<times> string)" where
  "create_dm_verify_code d now owner_user_id target_platform target_chat_id uuid_hex =
     (let code = dm_code uuid_hex;
          expires = now + ten_minutes
      in case insert_dm_verify_token d
             \<lparr>dt_code = code, dt_owner_user_id = owner_user_id,
              dt_target_platform = target_platform, dt_target_chat_id = target_chat_id,
              dt_expires_at = expires, dt_consumed = False\<rparr> of
           Inl e \<Rightarrow> Inl e
         | Inr d' \<Rightarrow> Inr (d', code))"

definition consume_dm_verify_code ::
  "store \<Rightarrow> datetime \<Rightarrow> string \<Rightarrow> string \<Rightarrow> int \<Rightarrow> store \<times> int option" where
  "consume_dm_verify_code d now code platform chat_id =
     (case find (\<lambda>r. dt_code r = code) (dm_verify_tokens d) of
        None \<Rightarrow> (d, None)
      | Some row \<Rightarrow>
          if dt_consumed row \<or> dt_target_platform row \<noteq> platform
             \<or> dt_target_chat_id row \<noteq> chat_id then (d, None)
          else if dt_expires_at row < now then (d, None)
          else (d\<lparr>dm_verify_tokens :=
                    map (\<lambda>r. if dt_code r = code then r\<lparr>dt_consumed := True\<rparr> else r)
                        (dm_verify_tokens d)\<rparr>,
                Some (dt_owner_user_id row)))"

subsection \<open>Chat registries\<close>

text \<open>
  \<^verbatim>\<open>register_chat\<close> is an \<^verbatim>\<open>INSERT OR IGNORE\<close>: a row that violates
  \<^verbatim>\<open>UNIQUE(platform, chat_id)\<close> or a \<^verbatim>\<open>CHECK\<close> is skipped and no exception is
  raised. SQLite allocates the \<^verbatim>\<open>AUTOINCREMENT\<close> rowid before it checks the
  constraints, so the sequence advances even when the row is skipped.
\<close>

definition register_chat ::
  "store \<Rightarrow> datetime \<Rightarrow> int \<Rightarrow> string \<Rightarrow> string \<Rightarrow> int \<Rightarrow> string \<Rightarrow> error + store" where
  "register_chat d now owner_user_id platform chat_type chat_id title =
     (let i = next_rowid (chats_seq d) (map c_id (chats d)) in
      if list_ex (\<lambda>r. c_platform r = platform \<and> c_chat_id r = chat_id) (chats d)
         \<or> platform \<notin> {''tg'', ''bale''}
         \<or> chat_type \<notin> {''group'', ''channel''}
      then Inr (d\<lparr>chats_seq := i\<rparr>)
      else Inr (d\<lparr>chats := chats d @
                   [\<lparr>c_id = i, c_owner_user_id = owner_user_id, c_platform = platform,
                     c_chat_type = chat_type, c_chat_id = chat_id, c_title = Some title,
                     c_created_at = now\<rparr>],
                 chats_seq := i\<rparr>))"

text \<open>
  \<^verbatim>\<open>list_owner_chats\<close>: an empty filter string is falsy in Python and adds no
  condition. The rows come back \<^verbatim>\<open>ORDER BY id\<close>, the order of the list.
\<close>

definition list_owner_chats :: "store \<Rightarrow> int \<Rightarrow> string option \<Rightarrow> string option \<Rightarrow> chat_row list" where
  "list_owner_chats d owner_user_id platform chat_type =
     filter (\<lambda>r. c_owner_user_id r = owner_user_id
                \<and> (case platform of None \<Rightarrow> True | Some p \<Rightarrow> p = [] \<or> c_platform r = p)
                \<and> (case chat_type of None \<Rightarrow> True | Some t \<Rightarrow> t = [] \<or> c_chat_type r = t))
            (chats d)"

definition pair_groups :: "store \<Rightarrow> datetime \<Rightarrow> int \<Rightarrow> int \<Rightarrow> int \<Rightarrow> error + store" where
  "pair_groups d now owner_user_id tg_group_id bale_group_id =
     (if list_ex (\<lambda>r. gl_tg_group_id r = tg_group_id \<and> gl_bale_group_id r = bale_group_id)
           (group_links d)
      then Inl IntegrityError
      else (let i = next_rowid (group_links_seq d) (map gl_id (group_links d)) in
        Inr (d\<lparr>group_links := group_links d @
                 [\<lparr>gl_id = i, gl_owner_user_id = owner_user_id, gl_tg_group_id = tg_group_id,
                   gl_bale_group_id = bale_group_id, gl_enabled = True, gl_created_at = now\<rparr>],
               group_links_seq := i\<rparr>)))"

definition pair_channels :: "store \<Rightarrow> datetime \<Rightarrow> int \<Rightarrow> int \<Rightarrow> int \<Rightarrow> error + store" where
  "pair_channels d now owner_user_id tg_channel_id bale_channel_id =
     (if list_ex (\<lambda>r. cl_tg_channel_id r = tg_channel_id \<and> cl_bale_channel_id r = bale_channel_id)
           (channel_links d)
      then Inl IntegrityError
      else (let i = next_rowid (channel_links_seq d) (map cl_id (channel_links d)) in
        Inr (d\<lparr>channel_links := channel_links d @
                 [\<lparr>cl_id = i, cl_owner_user_id = owner_user_id, cl_tg_channel_id = tg_channel_id,
                   cl_bale_channel_id = bale_channel_id, cl_enabled = True, cl_created_at = now\<rparr>],
               channel_links_seq := i\<rparr>)))"

text \<open>
  The four link lookups return the counterpart chat id and the \<^verbatim>\<open>enabled\<close> flag of the
  first row for the chat, or \<^verbatim>\<open>None\<close>.
\<close>

definition find_group_link_by_tg :: "store \<Rightarrow> int \<Rightarrow> (int \<times> bool) option" where
  "find_group_link_by_tg d tg_group_id =
     map_option (\<lambda>r. (gl_bale_group_id r, gl_enabled r))
       (find (\<lambda>r. gl_tg_group_id r = tg_group_id) (group_links d))"

definition find_group_link_by_bale :: "store \<Rightarrow> int \<Rightarrow> (int \<times> bool) option" where
  "find_group_link_by_bale d bale_group_id =
     map_option (\<lambda>r. (gl_tg_group_id r, gl_enabled r))
       (find (\<lambda>r. gl_bale_group_id r = bale_group_id) (group_links d))"

definition find_channel_link_by_tg :: "store \<Rightarrow> int \<Rightarrow> (int \<times> bool) option" where
  "find_channel_link_by_tg d tg_channel_id =
     map_option (\<lambda>r. (cl_bale_channel_id r, cl_enabled r))
       (find (\<lambda>r. cl_tg_channel_id r = tg_channel_id) (channel_links d))"

definition find_channel_link_by_bale :: "store \<Rightarrow> int \<Rightarrow> (int \<times> bool) option" where
  "find_channel_link_by_bale d bale_channel_id =
     map_option (\<lambda>r. (cl_tg_channel_id r, cl_enabled r))
       (find (\<lambda>r. cl_bale_channel_id r = bale_channel_id) (channel_links d))"

subsection \<open>Account merge\<close>

text \<open>
  \<^verbatim>\<open>UPDATE users SET tg_user_id=? WHERE id=?\<close> and its Bale twin. The statement changes
  the rows with the given id; the unique index rejects it when it changes a row and
  another row already carries the value.
\<close>

definition update_users_set_tg :: "store \<Rightarrow> int \<Rightarrow> int \<Rightarrow> error + store" where
  "update_users_set_tg d tg_user_id i =
     (if list_ex (\<lambda>r. u_id r = i) (users d)
         \<and> list_ex (\<lambda>r. u_id r \<noteq> i \<and> u_tg_user_id r = Some tg_user_id) (users d)
      then Inl IntegrityError
      else Inr (d\<lparr>users :=
                   map (\<lambda>r. if u_id r = i then r\<lparr>u_tg_user_id := Some tg_user_id\<rparr> else r)
                       (users d)\<rparr>))"

definition update_users_set_bale :: "store \<Rightarrow> int \<Rightarrow> int \<Rightarrow> error + store" where
  "update_users_set_bale d bale_user_id i =
     (if list_ex (\<lambda>r. u_id r = i) (users d)
         \<and> list_ex (\<lambda>r. u_id r \<noteq> i \<and> u_bale_user_id r = Some bale_user_id) (users d)
      then Inl IntegrityError
      else Inr (d\<lparr>users :=
                   map (\<lambda>r. if u_id r = i then r\<lparr>u_bale_user_id := Some bale_user_id\<rparr> else r)
                       (users d)\<rparr>))"

text \<open>
  The five \<^verbatim>\<open>UPDATE ... SET owner_user_id=? WHERE owner_user_id=?\<close> statements of the
  merge, in the order of the source.
\<close>

definition reassign_owner :: "store \<Rightarrow> int \<Rightarrow> int \<Rightarrow> store" where
  "reassign_owner d new_owner old_owner =
     d\<lparr>chats :=
         map (\<lambda>r. if c_owner_user_id r = old_owner then r\<lparr>c_owner_user_id := new_owner\<rparr> else r)
             (chats d),
       group_links :=
         map (\<lambda>r. if gl_owner_user_id r = old_owner then r\<lparr>gl_owner_user_id := new_owner\<rparr> else r)
             (group_links d),
       channel_links :=
         map (\<lambda>r. if cl_owner_user_id r = old_owner then r\<lparr>cl_owner_user_id := new_owner\<rparr> else r)
             (channel_links d),
       verify_tokens :=
         map (\<lambda>r. if vt_owner_user_id r = old_owner then r\<lparr>vt_owner_user_id := new_owner\<rparr> else r)
             (verify_tokens d),
       dm_verify_tokens :=
         map (\<lambda>r. if dt_owner_user_id r = old_owner then r\<lparr>dt_owner_user_id := new_owner\<rparr> else r)
             (dm_verify_tokens d)\<rparr>"

text \<open>\<^verbatim>\<open>DELETE FROM users WHERE id=?\<close>.\<close>

definition delete_user :: "store \<Rightarrow> int \<Rightarrow> store" where
  "delete_user d i = d\<lparr>users := filter (\<lambda>r. u_id r \<noteq> i) (users d)\<rparr>"

text \<open>
  \<^verbatim>\<open>merge_user_accounts\<close>. The whole body runs in one transaction: an exception rolls
  every statement back and is raised again, so \<open>Inl e\<close> means that the stored state is
  still the argument \<open>d\<close>. \<open>the\<close> is applied to truthy values only.
\<close>

definition merge_user_accounts :: "store \<Rightarrow> datetime \<Rightarrow> int \<Rightarrow> int \<Rightarrow> error + (store \<times> int)" where
  "merge_user_accounts d now tg_user_id bale_user_id =
     (let tg_owner_id = select_user_id_by_tg d tg_user_id;
          bale_owner_id = select_user_id_by_bale d bale_user_id
      in
      if truthy tg_owner_id \<and> truthy bale_owner_id \<and> tg_owner_id \<noteq> bale_owner_id then
        (case update_users_set_tg
                (reassign_owner d (the bale_owner_id) (the tg_owner_id))
                tg_user_id (the bale_owner_id) of
           Inl e \<Rightarrow> Inl e
         | Inr d' \<Rightarrow> Inr (delete_user d' (the tg_owner_id), the bale_owner_id))
      else if truthy tg_owner_id \<and> \<not> truthy bale_owner_id then
        (case update_users_set_bale d bale_user_id (the tg_owner_id) of
           Inl e \<Rightarrow> Inl e
         | Inr d' \<Rightarrow> Inr (d', the tg_owner_id))
      else if truthy bale_owner_id then
        (case update_users_set_tg d tg_user_id (the bale_owner_id) of
           Inl e \<Rightarrow> Inl e
         | Inr d' \<Rightarrow> Inr (d', the bale_owner_id))
      else get_or_create_user_by_tg d now tg_user_id)"

text \<open>
  The handlers set and clear the DM targets with
  \<^verbatim>\<open>UPDATE users SET dm_target_..._chat_id=? WHERE id=?\<close>.
\<close>

definition set_dm_target_bale :: "store \<Rightarrow> int option \<Rightarrow> int \<Rightarrow> store" where
  "set_dm_target_bale d target i =
     d\<lparr>users := map (\<lambda>r. if u_id r = i then r\<lparr>u_dm_target_bale_chat_id := target\<rparr> else r)
                     (users d)\<rparr>"

definition set_dm_target_telegram :: "store \<Rightarrow> int option \<Rightarrow> int \<Rightarrow> store" where
  "set_dm_target_telegram d target i =
     d\<lparr>users := map (\<lambda>r. if u_id r = i then r\<lparr>u_dm_target_telegram_chat_id := target\<rparr> else r)
                     (users d)\<rparr>"

subsection \<open>Sequences of store operations\<close>

text \<open>
  Every function of the source that writes to the store, as one operation. An operation
  that raises leaves the store as it was: nothing of it is committed.
\<close>

datatype op =
    Get_or_create_user_by_tg datetime int
  | Get_or_create_user_by_bale datetime int
  | Create_verify_code datetime int string string int "nat list"
  | Consume_verify_code datetime string string int
  | Create_dm_verify_code datetime int string int "nat list"
  | Consume_dm_verify_code datetime string string int
  | Register_chat datetime int string string int string
  | Pair_groups datetime int int int
  | Pair_channels datetime int int int
  | Merge_user_accounts datetime int int
  | Set_dm_target_bale "int option" int
  | Set_dm_target_telegram "int option" int

fun apply_op :: "store \<Rightarrow> op \<Rightarrow> store" where
  "apply_op d (Get_or_create_user_by_tg now tg) =
     (case get_or_create_user_by_tg d now tg of Inl e \<Rightarrow> d | Inr (d', i) \<Rightarrow> d')"
| "apply_op d (Get_or_create_user_by_bale now b) =
     (case get_or_create_user_by_bale d now b of Inl e \<Rightarrow> d | Inr (d', i) \<Rightarrow> d')"
| "apply_op d (Create_verify_code now owner platform chat_type uid picks) =
     (case create_verify_code d now owner platform chat_type uid picks of
        Inl e \<Rightarrow> d | Inr (d', c) \<Rightarrow> d')"
| "apply_op d (Consume_verify_code now code platform uid) =
     fst (consume_verify_code d now code platform uid)"
| "apply_op d (Create_dm_verify_code now owner platform chat_id uuid_hex) =
     (case create_dm_verify_code d now owner platform chat_id uuid_hex of
        Inl e \<Rightarrow> d | Inr (d', c) \<Rightarrow> d')"
| "apply_op d (Consume_dm_verify_code now code platform chat_id) =
     fst (consume_dm_verify_code d now code platform chat_id)"
| "apply_op d (Register_chat now owner platform chat_type chat_id title) =
     (case register_chat d now owner platform chat_type chat_id title of
        Inl e \<Rightarrow> d | Inr d' \<Rightarrow> d')"
| "apply_op d (Pair_groups now owner tg_id bale_id) =
     (case pair_groups d now owner tg_id bale_id of Inl e \<Rightarrow> d | Inr d' \<Rightarrow> d')"
| "apply_op d (Pair_channels now owner tg_id bale_id) =
     (case pair_channels d now owner tg_id bale_id of Inl e \<Rightarrow> d | Inr d' \<Rightarrow> d')"
| "apply_op d (Merge_user_accounts now tg b) =
     (case merge_user_accounts d now tg b of Inl e \<Rightarrow> d | Inr (d', i) \<Rightarrow> d')"
| "apply_op d (Set_dm_target_bale target i) = set_dm_target_bale d target i"
| "apply_op d (Set_dm_target_telegram target i) = set_dm_target_telegram d target i"

definition run :: "store \<Rightarrow> op list \<Rightarrow> store" where
  "run d ops = foldl apply_op d ops"

text \<open>
  A code is spent in a store when a token with that code exists and every token with
  that code is consumed.
\<close>

definition spent_in :: "string \<Rightarrow> verify_token_row list \<Rightarrow> bool" where
  "spent_in code ts =
     (list_ex (\<lambda>t. vt_code t = code) ts
      \<and> list_all (\<lambda>t. vt_code t = code \<longrightarrow> vt_consumed t) ts)"

definition spent :: "string \<Rightarrow> store \<Rightarrow> bool" where
  "spent code d = spent_in code (verify_tokens d)"

text \<open>A store that holds one fresh group token of owner 1, minted at time 0 for Telegram user 42.\<close>

definition ex_token_store :: store where
  "ex_token_store = empty_store\<lparr>verify_tokens :=
     [\<lparr>vt_code = ''G-ABCDEF'', vt_owner_user_id = 1, vt_platform = ''tg'',
       vt_chat_type = ''group'', vt_platform_user_id = 42, vt_expires_at = 600000000,
       vt_consumed = False\<rparr>]\<rparr>"

subsection \<open>Schema constraints on the users table\<close>

text \<open>
  What the schema guarantees of the \<^verbatim>\<open>users\<close> table: \<^verbatim>\<open>id\<close> is an
  \<^verbatim>\<open>AUTOINCREMENT\<close> primary key (distinct, positive, the sequence not negative), and
  the two unique indexes allow each Telegram identity and each Bale identity on one row
  only.
\<close>

definition users_ok :: "store \<Rightarrow> bool" where
  "users_ok d =
     (distinct (map u_id (users d))
      \<and> (\<forall>r\<in>set (users d). 0 < u_id r)
      \<and> 0 \<le> users_seq d
      \<and> (\<forall>r\<in>set (users d). \<forall>r'\<in>set (users d).
            u_tg_user_id r \<noteq> None \<and> u_tg_user_id r = u_tg_user_id r' \<longrightarrow> u_id r = u_id r')
      \<and> (\<forall>r\<in>set (users d). \<forall>r'\<in>set (users d).
            u_bale_user_id r \<noteq> None \<and> u_bale_user_id r = u_bale_user_id r' \<longrightarrow> u_id r = u_id r'))"

text \<open>
  A store with two owners: owner 1 came from Telegram user 100 and owns one Telegram
  group, owner 2 came from Bale user 200.
\<close>

definition ex_two_owners :: store where
  "ex_two_owners = empty_store\<lparr>
     users :=
       [\<lparr>u_id = 1, u_tg_user_id = Some 100, u_bale_user_id = None,
         u_dm_target_bale_chat_id = None, u_dm_target_telegram_chat_id = None,
         u_created_at = 0\<rparr>,
        \<lparr>u_id = 2, u_tg_user_id = None, u_bale_user_id = Some 200,
         u_dm_target_bale_chat_id = None, u_dm_target_telegram_chat_id = None,
         u_created_at = 1\<rparr>],
     users_seq := 2,
     chats :=
       [\<lparr>c_id = 1, c_owner_user_id = 1, c_platform = ''tg'', c_chat_type = ''group'',
         c_chat_id = 5, c_title = Some ''t'', c_created_at = 2\<rparr>],
     chats_seq := 1\<rparr>"

subsection \<open>The code spaces of the two generators\<close>

text \<open>
  The codes \<^verbatim>\<open>gen_code\<close> can return for a prefix: one for each draw of six indices
  into the population. The codes \<^verbatim>\<open>create_dm_verify_code\<close> can mint: one for each
  version-4 UUID (32 hexadecimal digits, digit 12 is the version 4, digit 16 carries the
  variant bits and is one of 8, 9, a, b).
\<close>

definition gen_code_outputs :: "string \<Rightarrow> string set" where
  "gen_code_outputs prefix =
     gen_code prefix ` {picks. set picks \<subseteq> {..<length population} \<and> length picks = 6}"

definition uuid4_hex :: "nat list set" where
  "uuid4_hex = {u. set u \<subseteq> {..<16} \<and> length u = 32 \<and> u ! 12 = 4 \<and> u ! 16 \<in> {8, 9, 10, 11}}"

definition dm_code_outputs :: "string set" where
  "dm_code_outputs = dm_code ` uuid4_hex"

text \<open>
  The store after the first contact of Telegram user 100, and the same store after Bale
  identity 200 was linked to that owner.
\<close>

definition ex_tg_owner :: store where
  "ex_tg_owner = empty_store\<lparr>
     users :=
       [\<lparr>u_id = 1, u_tg_user_id = Some 100, u_bale_user_id = None,
         u_dm_target_bale_chat_id = None, u_dm_target_telegram_chat_id = None,
         u_created_at = 0\<rparr>],
     users_seq := 1\<rparr>"

definition ex_linked_owner :: store where
  "ex_linked_owner = empty_store\<lparr>
     users :=
       [\<lparr>u_id = 1, u_tg_user_id = Some 100, u_bale_user_id = Some 200,
         u_dm_target_bale_chat_id = None, u_dm_target_telegram_chat_id = None,
         u_created_at = 0\<rparr>],
     users_seq := 1\<rparr>"

section \<open>The handlers: command interception and routing\<close>

subsection \<open>Python string methods\<close>

text \<open>
  A \<^verbatim>\<open>str\<close> is a \<open>string\<close> whose characters are the code points below 256. The
  methods below are Python's on that range. \<^verbatim>\<open>None\<close> and the empty string are both
  falsy, and every use the handlers make of an optional text treats them alike, so an
  absent text is the empty string.
\<close>

definition opt_str :: "string option \<Rightarrow> string" where
  "opt_str x = (case x of None \<Rightarrow> [] | Some s \<Rightarrow> s)"

definition startswith :: "string \<Rightarrow> string \<Rightarrow> bool" where
  "startswith s p = (take (length p) s = p)"

definition py_isspace :: "char \<Rightarrow> bool" where
  "py_isspace c = (c \<in> set [CHR 0x09, CHR 0x0A, CHR 0x0B, CHR 0x0C, CHR 0x0D,
                             CHR 0x1C, CHR 0x1D, CHR 0x1E, CHR 0x1F, CHR 0x20,
                             CHR 0x85, CHR 0xA0])"

definition strip :: "string \<Rightarrow> string" where
  "strip s = rev (dropWhile py_isspace (rev (dropWhile py_isspace s)))"

text \<open>\<^verbatim>\<open>s.split(maxsplit=1)\<close>: at most two parts, split at the first run of whitespace.\<close>

definition split_maxsplit1 :: "string \<Rightarrow> string list" where
  "split_maxsplit1 s =
     (let s1 = dropWhile py_isspace s in
      if s1 = [] then []
      else (let w = takeWhile (\<lambda>c. \<not> py_isspace c) s1;
                rest = dropWhile py_isspace (dropWhile (\<lambda>c. \<not> py_isspace c) s1)
            in if rest = [] then [w] else [w, rest]))"

text \<open>
  The characters below 256 that \<^verbatim>\<open>lower\<close> changes, and what it changes them to: the
  letters A to Z, and the capital letters of Latin-1.
\<close>

definition uppercase :: string where
  "uppercase = ''ABCDEFGHIJKLMNOPQRSTUVWXYZ'' @
       [CHR 0xC0, CHR 0xC1, CHR 0xC2, CHR 0xC3, CHR 0xC4, CHR 0xC5, CHR 0xC6, CHR 0xC7,
        CHR 0xC8, CHR 0xC9, CHR 0xCA, CHR 0xCB, CHR 0xCC, CHR 0xCD, CHR 0xCE, CHR 0xCF,
        CHR 0xD0, CHR 0xD1, CHR 0xD2, CHR 0xD3, CHR 0xD4, CHR 0xD5, CHR 0xD6, CHR 0xD8,
        CHR 0xD9, CHR 0xDA, CHR 0xDB, CHR 0xDC, CHR 0xDD, CHR 0xDE]"

definition lowercase :: string where
  "lowercase = ''abcdefghijklmnopqrstuvwxyz'' @
       [CHR 0xE0, CHR 0xE1, CHR 0xE2, CHR 0xE3, CHR 0xE4, CHR 0xE5, CHR 0xE6, CHR 0xE7,
        CHR 0xE8, CHR 0xE9, CHR 0xEA, CHR 0xEB, CHR 0xEC, CHR 0xED, CHR 0xEE, CHR 0xEF,
        CHR 0xF0, CHR 0xF1, CHR 0xF2, CHR 0xF3, CHR 0xF4, CHR 0xF5, CHR 0xF6, CHR 0xF8,
        CHR 0xF9, CHR 0xFA, CHR 0xFB, CHR 0xFC, CHR 0xFD, CHR 0xFE]"

definition py_lower_char :: "char \<Rightarrow> char" where
  "py_lower_char c = (case map_of (zip uppercase lowercase) c of None \<Rightarrow> c | Some l \<Rightarrow> l)"

definition lower :: "string \<Rightarrow> string" where
  "lower s = map py_lower_char s"

definition py_isdigit_char :: "char \<Rightarrow> bool" where
  "py_isdigit_char c = (c \<in> set ''0123456789'' \<or> c \<in> set [CHR 0xB2, CHR 0xB3, CHR 0xB9])"

definition isdigit :: "string \<Rightarrow> bool" where
  "isdigit s = (s \<noteq> [] \<and> list_all py_isdigit_char s)"

definition lstrip_minus :: "string \<Rightarrow> string" where
  "lstrip_minus s = dropWhile (\<lambda>c. c = CHR ''-'') s"

definition digit_value :: "char \<Rightarrow> nat" where
  "digit_value c = (of_char c :: nat) - 48"

text \<open>
  \<^verbatim>\<open>int(val)\<close> on the strings the wizard passes to it: minus signs followed by
  characters that satisfy \<^verbatim>\<open>isdigit\<close>. More than one sign, or a superscript digit,
  raises \<^verbatim>\<open>ValueError\<close>.
\<close>

definition py_int :: "string \<Rightarrow> error + int" where
  "py_int s =
     (let signs = takeWhile (\<lambda>c. c = CHR ''-'') s;
          ds = lstrip_minus s in
      if length signs \<le> 1 \<and> ds \<noteq> [] \<and> list_all (\<lambda>c. c \<in> set ''0123456789'') ds
      then (let n = int (foldl (\<lambda>a c. 10 * a + digit_value c) 0 ds) in
            Inr (if signs = [] then n else - n))
      else Inl ValueError)"

text \<open>\<^verbatim>\<open>str(n)\<close> of an integer, for the \<^verbatim>\<open>id:\<close> fallback of the sender names.\<close>

fun str_nat :: "nat \<Rightarrow> string" where
  "str_nat n =
     (if n < 10 then [''0123456789'' ! n]
      else str_nat (n div 10) @ [''0123456789'' ! (n mod 10)])"

declare str_nat.simps [simp del]

definition str_int :: "int \<Rightarrow> string" where
  "str_int i = (if i < 0 then ''-'' @ str_nat (nat (- i)) else str_nat (nat i))"

text \<open>\<^verbatim>\<open>" ".join(filter(None, names))\<close>: the non-empty names, separated by a space.\<close>

fun join_space :: "string list \<Rightarrow> string" where
  "join_space [] = []"
| "join_space [x] = x"
| "join_space (x # y # ys) = x @ '' '' @ join_space (y # ys)"

definition join_names :: "string option list \<Rightarrow> string" where
  "join_names names = join_space (filter (\<lambda>s. s \<noteq> []) (map opt_str names))"

subsection \<open>Inbound messages and outbound calls\<close>

record tg_user =
  tu_id :: int
  tu_username :: "string option"
  tu_first_name :: string
  tu_last_name :: "string option"

text \<open>\<open>tm_photo\<close> holds the file ids of the photo sizes, smallest first.\<close>

record tg_message =
  tm_chat_id :: int
  tm_chat_type :: string
  tm_chat_title :: "string option"
  tm_from_user :: "tg_user option"
  tm_text :: "string option"
  tm_caption :: "string option"
  tm_photo :: "string list"

record bale_user =
  ba_id :: int
  ba_username :: "string option"
  ba_first_name :: "string option"
  ba_last_name :: "string option"

text \<open>
  \<open>bm_photo\<close> and \<open>bm_video\<close> hold the file id, \<open>bm_document\<close> the file id and the
  file name.
\<close>

record bale_message =
  bm_chat_id :: int
  bm_chat_type :: string
  bm_chat_title :: "string option"
  bm_author :: "bale_user option"
  bm_text :: "string option"
  bm_caption :: "string option"
  bm_photo :: "string option"
  bm_document :: "(string \<times> string option) option"
  bm_video :: "string option"

text \<open>
  \<^verbatim>\<open>Bots\<close> with the two settings of the operator mirror. \<open>bale_self_id\<close> is 0 when
  \<^verbatim>\<open>get_me\<close> gave no id.
\<close>

record bots =
  tg_bot_id :: int
  bale_self_id :: int
  mirror_dms_to_owner :: bool
  owner_bale_chat_id :: "int option"

text \<open>
  The fixed answers of the bot to the chat a message came from, by their template and
  the values they interpolate.
\<close>

datatype reply =
    Unknown_command
  | Not_forwarded
  | Invalid_code
  | Wrong_chat_type
  | Linked string int
  | Invalid_dm_code
  | Dm_target_set int
  | My_id int
  | Help_menu
  | Tg_target_set int
  | Invalid_tg_id
  | Mirror string

text \<open>
  The calls a handler makes to the two platform clients, in order. A forward is named
  after the helper of the source that makes it and carries the target chat id, the file
  id where there is one, and the text or caption. \<open>Tg_answer\<close> is \<^verbatim>\<open>message.answer\<close>
  or \<^verbatim>\<open>message.reply\<close>; \<open>Bale_send_message\<close> is a \<^verbatim>\<open>bots.bale.send_message\<close> the
  handler makes itself. The model records each call as made; whether the platform then
  accepts it is outside the model.
\<close>

datatype outbound =
    Forward_tg_text_to_bale int string
  | Forward_tg_photo_to_bale int string string
  | Forward_bale_text_to_tg int string
  | Forward_bale_photo_to_tg int string string
  | Forward_bale_document_to_tg int string string string
  | Forward_bale_video_to_tg int string string
  | Tg_answer reply
  | Bale_send_message int reply

fun is_forward :: "outbound \<Rightarrow> bool" where
  "is_forward (Tg_answer r) = False"
| "is_forward (Bale_send_message c r) = False"
| "is_forward x = True"

definition tg_name :: "tg_user \<Rightarrow> string" where
  "tg_name u =
     (if opt_str (tu_username u) \<noteq> [] then ''@'' @ opt_str (tu_username u)
      else (let full = join_names [Some (tu_first_name u), tu_last_name u] in
            if full \<noteq> [] then full else ''id:'' @ str_int (tu_id u)))"

definition prefix_with_username :: "string \<Rightarrow> string \<Rightarrow> string" where
  "prefix_with_username username text = username @ '' sent this message: '' @ text"

definition bale_name :: "bale_user \<Rightarrow> string" where
  "bale_name author =
     (if opt_str (ba_username author) \<noteq> [] then ''@'' @ opt_str (ba_username author)
      else (let full = join_names [ba_first_name author, ba_last_name author] in
            if full \<noteq> [] then full else ''id:'' @ str_int (ba_id author)))"

text \<open>\<^verbatim>\<open>SELECT dm_target_..._chat_id FROM users WHERE id=?\<close>: the row, then the column.\<close>

definition select_dm_target_bale :: "store \<Rightarrow> int \<Rightarrow> int option option" where
  "select_dm_target_bale d i =
     map_option u_dm_target_bale_chat_id (find (\<lambda>r. u_id r = i) (users d))"

definition select_dm_target_telegram :: "store \<Rightarrow> int \<Rightarrow> int option option" where
  "select_dm_target_telegram d i =
     map_option u_dm_target_telegram_chat_id (find (\<lambda>r. u_id r = i) (users d))"

subsection \<open>Telegram handlers\<close>

text \<open>
  What a Telegram handler leaves behind: the store, the calls it made, and the exception
  that ended it, if one did.
\<close>

record tg_result =
  tr_store :: store
  tr_out :: "outbound list"
  tr_raised :: "error option"

definition tg_done :: "store \<Rightarrow> outbound list \<Rightarrow> tg_result" where
  "tg_done d out = \<lparr>tr_store = d, tr_out = out, tr_raised = None\<rparr>"

definition tg_raise :: "store \<Rightarrow> error \<Rightarrow> tg_result" where
  "tg_raise d e = \<lparr>tr_store = d, tr_out = [], tr_raised = Some e\<rparr>"

text \<open>
  \<^verbatim>\<open>on_tg_dm\<close>, the handler of private chats. A text that starts with a slash has a
  first word, so \<open>hd\<close> is applied to a non-empty list.
\<close>

definition on_tg_dm :: "bots \<Rightarrow> store \<Rightarrow> datetime \<Rightarrow> tg_message \<Rightarrow> tg_result" where
  "on_tg_dm b d now message =
     (let text = opt_str (tm_text message) in
      if text \<noteq> [] \<and> startswith text ''/'' then
        (if hd (split_maxsplit1 text) \<notin> {''/start'', ''/help'', ''/verify_dm''}
         then tg_done d [Tg_answer Unknown_command]
         else tg_done d [])
      else
        (case tm_from_user message of
           None \<Rightarrow> tg_raise d AttributeError
         | Some u \<Rightarrow>
             (case get_or_create_user_by_tg d now (tu_id u) of
                Inl e \<Rightarrow> tg_raise d e
              | Inr (d', owner_id) \<Rightarrow>
                  (let row = select_dm_target_bale d' owner_id in
                   if row \<noteq> None \<and> truthy (the row) then
                     (let target_bale = the (the row);
                          sender_prefix = ''[From Telegram DM] '' @ tg_name u @ '': ''
                      in
                      if text \<noteq> [] then
                        tg_done d' [Forward_tg_text_to_bale target_bale (sender_prefix @ text)]
                      else if tm_photo message \<noteq> [] then
                        tg_done d' [Forward_tg_photo_to_bale target_bale (last (tm_photo message))
                                      (sender_prefix @ opt_str (tm_caption message))]
                      else tg_done d' [])
                   else tg_done d' [Tg_answer Not_forwarded]))))"

definition on_tg_verify_in_group :: "bots \<Rightarrow> store \<Rightarrow> datetime \<Rightarrow> tg_message \<Rightarrow> tg_result" where
  "on_tg_verify_in_group b d now message =
     (if (case tm_from_user message of None \<Rightarrow> False | Some u \<Rightarrow> tu_id u = tg_bot_id b)
      then tg_done d []
      else (let parts = split_maxsplit1 (opt_str (tm_text message)) in
        if length parts \<noteq> 2 then tg_done d []
        else (let code = strip (parts ! 1);
                  platform_chat_type =
                    (if tm_chat_type message \<in> {''group'', ''supergroup''}
                     then ''group'' else ''channel'');
                  uid = (case tm_from_user message of None \<Rightarrow> 0 | Some u \<Rightarrow> tu_id u)
              in
              case consume_verify_code d now code ''tg'' uid of
                (d1, None) \<Rightarrow> tg_done d1 [Tg_answer Invalid_code]
              | (d1, Some (owner_user_id, chat_type)) \<Rightarrow>
                  if chat_type \<noteq> platform_chat_type
                  then tg_done d1 [Tg_answer Wrong_chat_type]
                  else (case register_chat d1 now owner_user_id ''tg'' chat_type
                               (tm_chat_id message) (opt_str (tm_chat_title message)) of
                          Inl e \<Rightarrow> tg_raise d1 e
                        | Inr d2 \<Rightarrow>
                            tg_done d2 [Tg_answer (Linked chat_type (tm_chat_id message))]))))"

definition on_tg_group_forward :: "bots \<Rightarrow> store \<Rightarrow> tg_message \<Rightarrow> tg_result" where
  "on_tg_group_forward b d message =
     (case tm_from_user message of
        None \<Rightarrow> tg_done d []
      | Some u \<Rightarrow>
          if tu_id u = tg_bot_id b then tg_done d []
          else (case find_group_link_by_tg d (tm_chat_id message) of
                  None \<Rightarrow> tg_done d []
                | Some (bale_group_id, enabled) \<Rightarrow>
                    if \<not> enabled then tg_done d []
                    else (let sender = tg_name u;
                              text = (if opt_str (tm_text message) \<noteq> []
                                      then opt_str (tm_text message)
                                      else opt_str (tm_caption message))
                          in
                          if text \<noteq> [] then
                            tg_done d [Forward_tg_text_to_bale bale_group_id
                                         (prefix_with_username sender text)]
                          else tg_done d [])))"

definition on_tg_channel_post :: "bots \<Rightarrow> store \<Rightarrow> tg_message \<Rightarrow> tg_result" where
  "on_tg_channel_post b d message =
     (if (case tm_from_user message of None \<Rightarrow> False | Some u \<Rightarrow> tu_id u = tg_bot_id b)
      then tg_done d []
      else (case find_channel_link_by_tg d (tm_chat_id message) of
              None \<Rightarrow> tg_done d []
            | Some (bale_channel_id, enabled) \<Rightarrow>
                if \<not> enabled then tg_done d []
                else (let text = (if opt_str (tm_text message) \<noteq> []
                                  then opt_str (tm_text message)
                                  else opt_str (tm_caption message))
                      in
                      if text \<noteq> [] then tg_done d [Forward_tg_text_to_bale bale_channel_id text]
                      else tg_done d [])))"

subsection \<open>The Bale message handler\<close>

text \<open>
  The entries of \<^verbatim>\<open>BALE_WIZ\<close>, by their mode. What one pass of the polling loop over
  a message update leaves behind: the store, the wizard states, the calls it made, and
  the exception that the loop caught and logged, if one was raised.
\<close>

datatype bale_wiz = Pair_g_wait_bale int | Pair_c_wait_bale int | Set_dm_bale2tg

record bale_result =
  br_store :: store
  br_wiz :: "int \<Rightarrow> bale_wiz option"
  br_out :: "outbound list"
  br_logged :: "error option"

definition bale_done :: "store \<Rightarrow> (int \<Rightarrow> bale_wiz option) \<Rightarrow> outbound list \<Rightarrow> bale_result" where
  "bale_done d wiz out = \<lparr>br_store = d, br_wiz = wiz, br_out = out, br_logged = None\<rparr>"

definition bale_log :: "store \<Rightarrow> (int \<Rightarrow> bale_wiz option) \<Rightarrow> error \<Rightarrow> bale_result" where
  "bale_log d wiz e = \<lparr>br_store = d, br_wiz = wiz, br_out = [], br_logged = Some e\<rparr>"

text \<open>The \<^verbatim>\<open>/verify_dm\<close> command.\<close>

definition bale_verify_dm ::
  "store \<Rightarrow> (int \<Rightarrow> bale_wiz option) \<Rightarrow> datetime \<Rightarrow> int \<Rightarrow> string \<Rightarrow> bale_result" where
  "bale_verify_dm d wiz now chat_id text =
     (let parts = split_maxsplit1 text;
          code = (if length parts = 2 then strip (parts ! 1) else [])
      in
      case consume_dm_verify_code d now code ''bale'' chat_id of
        (d1, owner_user_id) \<Rightarrow>
          if \<not> truthy owner_user_id
          then bale_done d1 wiz [Bale_send_message chat_id Invalid_dm_code]
          else bale_done (set_dm_target_bale d1 (Some chat_id) (the owner_user_id)) wiz
                 [Bale_send_message chat_id (Dm_target_set chat_id)])"

text \<open>A message in a private chat: \<^verbatim>\<open>/myid\<close>, the menu, the wizard step, the DM bridge.\<close>

definition document_name :: "string option \<Rightarrow> string" where
  "document_name name = (if opt_str name \<noteq> [] then opt_str name else ''document.bin'')"

definition bale_private ::
  "bots \<Rightarrow> store \<Rightarrow> (int \<Rightarrow> bale_wiz option) \<Rightarrow> datetime \<Rightarrow> bale_message \<Rightarrow> string \<Rightarrow> int \<Rightarrow> string
     \<Rightarrow> bale_result" where
  "bale_private b d wiz now msg text author_id sender =
     (let chat_id = bm_chat_id msg in
      case get_or_create_user_by_bale d now author_id of
        Inl e \<Rightarrow> bale_log d wiz e
      | Inr (d1, owner_id) \<Rightarrow>
          if text \<noteq> [] \<and> lower (strip text) = ''/myid'' then
            bale_done d1 wiz [Bale_send_message chat_id (My_id author_id)]
          else if text \<noteq> [] \<and> lower (strip text) \<in> {''/start'', ''/help''} then
            bale_done d1 wiz [Bale_send_message chat_id Help_menu]
          else if wiz author_id = Some Set_dm_bale2tg then
            (let val = (if text \<noteq> [] then strip text else []) in
             if val \<noteq> [] \<and> isdigit (lstrip_minus val) then
               (case py_int val of
                  Inl e \<Rightarrow> bale_log d1 wiz e
                | Inr target \<Rightarrow>
                    bale_done (set_dm_target_telegram d1 (Some target) owner_id)
                      (wiz(author_id := None))
                      [Bale_send_message chat_id (Tg_target_set target)])
             else bale_done d1 wiz [Bale_send_message chat_id Invalid_tg_id])
          else
            (let mirror =
                   (if mirror_dms_to_owner b \<and> truthy (owner_bale_chat_id b)
                    then [Bale_send_message (the (owner_bale_chat_id b))
                            (Mirror (''[Bale DM] '' @ sender @ '': '' @
                                     (if text \<noteq> [] then text else ''[non-text]'')))]
                    else []);
                 row = select_dm_target_telegram d1 owner_id
             in
             if row \<noteq> None \<and> truthy (the row) then
               (let target_tg = the (the row);
                    pre = ''[From Bale DM] '' @ sender @ '': '';
                    caption = pre @ opt_str (bm_caption msg)
                in
                bale_done d1 wiz (mirror @
                  [if text \<noteq> [] then Forward_bale_text_to_tg target_tg (pre @ text)
                   else (case bm_photo msg of
                      Some file_id \<Rightarrow> Forward_bale_photo_to_tg target_tg file_id caption
                    | None \<Rightarrow>
                       (case bm_document msg of
                          Some (file_id, name) \<Rightarrow>
                            Forward_bale_document_to_tg target_tg file_id (document_name name) caption
                        | None \<Rightarrow>
                           (case bm_video msg of
                              Some file_id \<Rightarrow> Forward_bale_video_to_tg target_tg file_id caption
                            | None \<Rightarrow>
                                Forward_bale_text_to_tg target_tg
                                  (pre @ ''[unsupported content]''))))]))
             else bale_done d1 wiz mirror))"

text \<open>The \<^verbatim>\<open>/verify\<close> command in a group or channel.\<close>

definition bale_verify ::
  "store \<Rightarrow> (int \<Rightarrow> bale_wiz option) \<Rightarrow> datetime \<Rightarrow> bale_message \<Rightarrow> string \<Rightarrow> int \<Rightarrow> bale_result" where
  "bale_verify d wiz now msg text author_id =
     (let chat_id = bm_chat_id msg;
          parts = split_maxsplit1 text;
          code = (if length parts = 2 then strip (parts ! 1) else [])
      in
      if bm_chat_type msg \<noteq> ''group'' \<and> bm_chat_type msg \<noteq> ''channel'' then bale_done d wiz []
      else (let expected = bm_chat_type msg in
        case consume_verify_code d now code ''bale'' author_id of
          (d1, None) \<Rightarrow> bale_done d1 wiz [Bale_send_message chat_id Invalid_code]
        | (d1, Some (owner_user_id, code_chat_type)) \<Rightarrow>
            if code_chat_type \<noteq> expected
            then bale_done d1 wiz [Bale_send_message chat_id Wrong_chat_type]
            else (case register_chat d1 now owner_user_id ''bale'' expected chat_id
                         (opt_str (bm_chat_title msg)) of
                    Inl e \<Rightarrow> bale_log d1 wiz e
                  | Inr d2 \<Rightarrow>
                      bale_done d2 wiz [Bale_send_message chat_id (Linked expected chat_id)])))"

text \<open>
  Group to Telegram group, channel to Telegram channel. The four content kinds are
  forwarded independently of each other; \<open>wrap\<close> adds the sender to a group's text and
  captions and is the identity for a channel.
\<close>

definition bale_forward_content ::
  "int \<Rightarrow> bale_message \<Rightarrow> string \<Rightarrow> (string \<Rightarrow> string) \<Rightarrow> outbound list" where
  "bale_forward_content target msg text wrap =
     (if text \<noteq> [] then [Forward_bale_text_to_tg target (wrap text)] else [])
     @ (case bm_photo msg of
          None \<Rightarrow> []
        | Some file_id \<Rightarrow>
            [Forward_bale_photo_to_tg target file_id (wrap (opt_str (bm_caption msg)))])
     @ (case bm_document msg of
          None \<Rightarrow> []
        | Some (file_id, name) \<Rightarrow>
            [Forward_bale_document_to_tg target file_id (document_name name)
               (wrap (opt_str (bm_caption msg)))])
     @ (case bm_video msg of
          None \<Rightarrow> []
        | Some file_id \<Rightarrow>
            [Forward_bale_video_to_tg target file_id (wrap (opt_str (bm_caption msg)))])"

definition bale_group ::
  "store \<Rightarrow> (int \<Rightarrow> bale_wiz option) \<Rightarrow> bale_message \<Rightarrow> string \<Rightarrow> string \<Rightarrow> bale_result" where
  "bale_group d wiz msg text sender =
     (case find_group_link_by_bale d (bm_chat_id msg) of
        None \<Rightarrow> bale_done d wiz []
      | Some (tg_group_id, enabled) \<Rightarrow>
          if \<not> enabled then bale_done d wiz []
          else bale_done d wiz
                 (bale_forward_content tg_group_id msg text (prefix_with_username sender)))"

definition bale_channel ::
  "store \<Rightarrow> (int \<Rightarrow> bale_wiz option) \<Rightarrow> bale_message \<Rightarrow> string \<Rightarrow> bale_result" where
  "bale_channel d wiz msg text =
     (case find_channel_link_by_bale d (bm_chat_id msg) of
        None \<Rightarrow> bale_done d wiz []
      | Some (tg_channel_id, enabled) \<Rightarrow>
          if \<not> enabled then bale_done d wiz []
          else bale_done d wiz (bale_forward_content tg_channel_id msg text (\<lambda>s. s)))"

text \<open>
  The message part of one pass of \<^verbatim>\<open>poll_bale_updates\<close>, for an update that carries
  a message with a chat: the self-loop guard, the two commands, the private chat, then
  group and channel routing. \<open>bale_text\<close> is \<^verbatim>\<open>msg.text or msg.caption\<close>.
\<close>

definition bale_text :: "bale_message \<Rightarrow> string" where
  "bale_text msg =
     (if opt_str (bm_text msg) \<noteq> [] then opt_str (bm_text msg) else opt_str (bm_caption msg))"

definition bale_on_message ::
  "bots \<Rightarrow> store \<Rightarrow> (int \<Rightarrow> bale_wiz option) \<Rightarrow> datetime \<Rightarrow> bale_message \<Rightarrow> bale_result" where
  "bale_on_message b d wiz now msg =
     (let chat_id = bm_chat_id msg;
          chat_type = bm_chat_type msg;
          text = bale_text msg;
          author_id = (case bm_author msg of None \<Rightarrow> 0 | Some a \<Rightarrow> ba_id a);
          sender = (case bm_author msg of None \<Rightarrow> ''unknown'' | Some a \<Rightarrow> bale_name a)
      in
      if author_id \<noteq> 0 \<and> author_id = bale_self_id b then bale_done d wiz []
      else if text \<noteq> [] \<and> startswith text ''/verify_dm'' then
        bale_verify_dm d wiz now chat_id text
      else if chat_type = ''private'' then
        bale_private b d wiz now msg text author_id sender
      else if text \<noteq> [] \<and> startswith text ''/verify'' then
        bale_verify d wiz now msg text author_id
      else if chat_type = ''group'' then bale_group d wiz msg text sender
      else if chat_type = ''channel'' then bale_channel d wiz msg text
      else bale_done d wiz [])"

subsection \<open>Example messages\<close>

text \<open>
  The bridge runs as Telegram bot 999 and Bale bot 888. In \<open>ex_bot_dm_store\<close> the owner
  of Telegram identity 999 has Bale chat 555 as DM target; \<open>ex_bot_dm_message\<close> is a
  text in a private Telegram chat whose author is the bot itself.
\<close>

definition ex_bots :: bots where
  "ex_bots = \<lparr>tg_bot_id = 999, bale_self_id = 888, mirror_dms_to_owner = False,
               owner_bale_chat_id = None\<rparr>"

definition ex_bot_dm_store :: store where
  "ex_bot_dm_store = empty_store\<lparr>
     users :=
       [\<lparr>u_id = 1, u_tg_user_id = Some 999, u_bale_user_id = None,
         u_dm_target_bale_chat_id = Some 555, u_dm_target_telegram_chat_id = None,
         u_created_at = 0\<rparr>],
     users_seq := 1\<rparr>"

definition ex_bot_dm_message :: tg_message where
  "ex_bot_dm_message =
     \<lparr>tm_chat_id = 999, tm_chat_type = ''private'', tm_chat_title = None,
      tm_from_user = Some \<lparr>tu_id = 999, tu_username = Some ''bridgebot'',
                            tu_first_name = ''Bridge'', tu_last_name = None\<rparr>,
      tm_text = Some ''hi'', tm_caption = None, tm_photo = []\<rparr>"

text \<open>
  A store with one disabled group pairing (Telegram group 5, Bale group 6), and a text
  message in each of the two groups and in an unpaired channel on each platform.
\<close>

definition ex_disabled_link :: store where
  "ex_disabled_link = ex_two_owners\<lparr>
     group_links :=
       [\<lparr>gl_id = 1, gl_owner_user_id = 1, gl_tg_group_id = 5, gl_bale_group_id = 6,
         gl_enabled = False, gl_created_at = 3\<rparr>],
     group_links_seq := 1\<rparr>"

definition ex_tg_chat_message :: "int \<Rightarrow> string \<Rightarrow> tg_message" where
  "ex_tg_chat_message chat_id chat_type =
     \<lparr>tm_chat_id = chat_id, tm_chat_type = chat_type, tm_chat_title = Some ''t'',
      tm_from_user = Some \<lparr>tu_id = 100, tu_username = None,
                            tu_first_name = ''Ann'', tu_last_name = None\<rparr>,
      tm_text = Some ''hello'', tm_caption = None, tm_photo = []\<rparr>"

definition ex_bale_chat_message :: "int \<Rightarrow> string \<Rightarrow> bale_message" where
  "ex_bale_chat_message chat_id chat_type =
     \<lparr>bm_chat_id = chat_id, bm_chat_type = chat_type, bm_chat_title = Some ''b'',
      bm_author = Some \<lparr>ba_id = 200, ba_username = None, ba_first_name = Some ''Bo'',
                         ba_last_name = None\<rparr>,
      bm_text = Some ''hello'', bm_caption = None, bm_photo = None, bm_document = None,
      bm_video = None\<rparr>"

definition ex_enabled_link :: store where
  "ex_enabled_link = ex_two_owners\<lparr>
     group_links :=
       [\<lparr>gl_id = 1, gl_owner_user_id = 1, gl_tg_group_id = 5, gl_bale_group_id = 6,
         gl_enabled = True, gl_created_at = 3\<rparr>],
     group_links_seq := 1\<rparr>"

section \<open>Properties of the store operations\<close>

subsection \<open>Find-or-create unfolds to one insert\<close>

lemma find_Some_in: "find P xs = Some x \<Longrightarrow> x \<in> set xs \<and> P x"
  by (induction xs) (auto split: if_splits)

lemma get_or_create_user_by_tg_unfold:
  "get_or_create_user_by_tg d now tg =
     (case select_user_id_by_tg d tg of
        Some i \<Rightarrow> Inr (d, i)
      | None \<Rightarrow>
          (case insert_user d (Some tg) None now of
             Inl e \<Rightarrow> Inl e
           | Inr d' \<Rightarrow> Inr (d', the (select_user_id_by_tg d' tg))))"
proof (cases "select_user_id_by_tg d tg")
  case None
  show ?thesis
  proof (cases "insert_user d (Some tg) None now")
    case (Inl e)
    with None show ?thesis by (simp add: get_or_create_user_by_tg.simps [of d])
  next
    case (Inr d')
    then obtain i where "select_user_id_by_tg d' tg = Some i"
      using select_tg_after_insert by blast
    with None Inr show ?thesis
      by (simp add: get_or_create_user_by_tg.simps [of d] get_or_create_user_by_tg.simps [of d'])
  qed
next
  case (Some i)
  then show ?thesis by (simp add: get_or_create_user_by_tg.simps [of d])
qed

lemma get_or_create_user_by_bale_unfold:
  "get_or_create_user_by_bale d now b =
     (case select_user_id_by_bale d b of
        Some i \<Rightarrow> Inr (d, i)
      | None \<Rightarrow>
          (case insert_user d None (Some b) now of
             Inl e \<Rightarrow> Inl e
           | Inr d' \<Rightarrow> Inr (d', the (select_user_id_by_bale d' b))))"
proof (cases "select_user_id_by_bale d b")
  case None
  show ?thesis
  proof (cases "insert_user d None (Some b) now")
    case (Inl e)
    with None show ?thesis by (simp add: get_or_create_user_by_bale.simps [of d])
  next
    case (Inr d')
    then obtain i where "select_user_id_by_bale d' b = Some i"
      using select_bale_after_insert by blast
    with None Inr show ?thesis
      by (simp add: get_or_create_user_by_bale.simps [of d] get_or_create_user_by_bale.simps [of d'])
  qed
next
  case (Some i)
  then show ?thesis by (simp add: get_or_create_user_by_bale.simps [of d])
qed

subsection \<open>A redeemed verify code stays redeemed\<close>

lemma insert_user_tokens:
  "insert_user d tg b now = Inr d' \<Longrightarrow> verify_tokens d' = verify_tokens d"
  by (auto simp: insert_user_def Let_def split: if_splits)

lemma get_or_create_user_by_tg_tokens:
  "get_or_create_user_by_tg d now tg = Inr (d', i) \<Longrightarrow> verify_tokens d' = verify_tokens d"
  by (auto simp: get_or_create_user_by_tg_unfold insert_user_tokens split: option.splits sum.splits)

lemma get_or_create_user_by_bale_tokens:
  "get_or_create_user_by_bale d now b = Inr (d', i) \<Longrightarrow> verify_tokens d' = verify_tokens d"
  by (auto simp: get_or_create_user_by_bale_unfold insert_user_tokens split: option.splits sum.splits)

lemma spent_in_iff:
  "spent_in code ts \<longleftrightarrow>
     (\<exists>t\<in>set ts. vt_code t = code) \<and> (\<forall>t\<in>set ts. vt_code t = code \<longrightarrow> vt_consumed t)"
  by (simp add: spent_in_def list_ex_iff list_all_iff)

lemma list_ex_code_map:
  "(\<And>r. vt_code (f r) = vt_code r) \<Longrightarrow>
   list_ex (\<lambda>t. vt_code t = code) (map f ts) = list_ex (\<lambda>t. vt_code t = code) ts"
  by (induction ts) auto

lemma list_all_consumed_map:
  "(\<And>r. vt_code (f r) = vt_code r) \<Longrightarrow> (\<And>r. vt_consumed r \<Longrightarrow> vt_consumed (f r)) \<Longrightarrow>
   list_all (\<lambda>t. vt_code t = code \<longrightarrow> vt_consumed t) ts \<Longrightarrow>
   list_all (\<lambda>t. vt_code t = code \<longrightarrow> vt_consumed t) (map f ts)"
  by (induction ts) auto

lemma spent_in_map:
  "(\<And>r. vt_code (f r) = vt_code r) \<Longrightarrow> (\<And>r. vt_consumed r \<Longrightarrow> vt_consumed (f r)) \<Longrightarrow>
   spent_in code ts \<Longrightarrow> spent_in code (map f ts)"
  unfolding spent_in_def by (simp add: list_ex_code_map list_all_consumed_map)

lemma spent_in_mark:
  "spent_in code ts \<Longrightarrow>
   spent_in code (map (\<lambda>r. if vt_code r = c then r\<lparr>vt_consumed := True\<rparr> else r) ts)"
  by (rule spent_in_map) auto

lemma spent_in_mark_self:
  "list_ex (\<lambda>t. vt_code t = code) ts \<Longrightarrow>
   spent_in code (map (\<lambda>r. if vt_code r = code then r\<lparr>vt_consumed := True\<rparr> else r) ts)"
proof -
  have "list_all (\<lambda>t. vt_code t = code \<longrightarrow> vt_consumed t)
          (map (\<lambda>r. if vt_code r = code then r\<lparr>vt_consumed := True\<rparr> else r) ts)"
    by (induction ts) auto
  moreover assume "list_ex (\<lambda>t. vt_code t = code) ts"
  ultimately show ?thesis
    unfolding spent_in_def by (simp add: list_ex_code_map)
qed

lemma spent_in_reown:
  "spent_in code ts \<Longrightarrow>
   spent_in code (map (\<lambda>r. if vt_owner_user_id r = a then r\<lparr>vt_owner_user_id := b\<rparr> else r) ts)"
  by (rule spent_in_map) auto

lemma spent_after_consume:
  assumes "consume_verify_code d now code platform uid = (d1, Some r)"
  shows "spent code d1"
proof -
  from assms obtain row where
    f: "find (\<lambda>r. vt_code r = code \<and> vt_platform r = platform \<and> vt_platform_user_id r = uid)
          (verify_tokens d) = Some row"
    and d1: "verify_tokens d1 =
          map (\<lambda>r. if vt_code r = code then r\<lparr>vt_consumed := True\<rparr> else r) (verify_tokens d)"
    by (auto simp: consume_verify_code_def split: option.splits if_splits)
  from find_Some_in [OF f] have "list_ex (\<lambda>t. vt_code t = code) (verify_tokens d)"
    by (auto simp: list_ex_iff)
  then show ?thesis
    unfolding spent_def d1 by (rule spent_in_mark_self)
qed

lemma consume_spent:
  assumes "spent code d"
  shows "consume_verify_code d now code platform uid = (d, None)"
proof (cases "find (\<lambda>r. vt_code r = code \<and> vt_platform r = platform \<and> vt_platform_user_id r = uid)
          (verify_tokens d)")
  case None
  then show ?thesis by (simp add: consume_verify_code_def)
next
  case (Some row)
  from find_Some_in [OF Some] assms have "vt_consumed row"
    by (auto simp: spent_def spent_in_iff)
  with Some show ?thesis by (simp add: consume_verify_code_def)
qed

lemma spent_apply_op:
  assumes "spent code d"
  shows "spent code (apply_op d x)"
proof (cases x)
  case (Get_or_create_user_by_tg now tg)
  then show ?thesis using assms
    by (auto split: sum.splits dest!: get_or_create_user_by_tg_tokens simp: spent_def)
next
  case (Get_or_create_user_by_bale now b)
  then show ?thesis using assms
    by (auto split: sum.splits dest!: get_or_create_user_by_bale_tokens simp: spent_def)
next
  case (Create_verify_code now owner platform chat_type uid picks)
  then show ?thesis using assms
    by (auto simp: create_verify_code_def insert_verify_token_def spent_def Let_def
                   spent_in_iff list_ex_iff split: sum.splits if_splits)
next
  case (Consume_verify_code now c platform uid)
  then show ?thesis using assms
    by (auto simp: consume_verify_code_def spent_def spent_in_mark split: option.splits)
next
  case (Create_dm_verify_code now owner platform chat_id uuid_hex)
  then show ?thesis using assms
    by (auto simp: create_dm_verify_code_def insert_dm_verify_token_def spent_def Let_def
             split: sum.splits if_splits)
next
  case (Consume_dm_verify_code now c platform chat_id)
  then show ?thesis using assms
    by (auto simp: consume_dm_verify_code_def spent_def split: option.splits)
next
  case (Register_chat now owner platform chat_type chat_id title)
  then show ?thesis using assms
    by (auto simp: register_chat_def spent_def Let_def split: sum.splits if_splits)
next
  case (Pair_groups now owner tg_id bale_id)
  then show ?thesis using assms
    by (auto simp: pair_groups_def spent_def Let_def split: sum.splits if_splits)
next
  case (Pair_channels now owner tg_id bale_id)
  then show ?thesis using assms
    by (auto simp: pair_channels_def spent_def Let_def split: sum.splits if_splits)
next
  case (Merge_user_accounts now tg b)
  then show ?thesis using assms
    by (auto simp: merge_user_accounts_def update_users_set_tg_def update_users_set_bale_def
                   reassign_owner_def delete_user_def spent_def Let_def spent_in_reown
             split: sum.splits if_splits dest!: get_or_create_user_by_tg_tokens)
next
  case (Set_dm_target_bale target i)
  then show ?thesis using assms by (simp add: set_dm_target_bale_def spent_def)
next
  case (Set_dm_target_telegram target i)
  then show ?thesis using assms by (simp add: set_dm_target_telegram_def spent_def)
qed

lemma spent_run: "spent code d \<Longrightarrow> spent code (run d ops)"
  unfolding run_def by (induction ops arbitrary: d) (auto simp: spent_apply_op)

text \<open>
  Claim C1. For every verify token that was issued, redemption through
  \<^verbatim>\<open>consume_verify_code\<close> succeeds at most once: once a redemption of a code has
  succeeded in store \<open>d\<close> and left store \<open>d1\<close>, every later attempt with the same code
  returns \<^verbatim>\<open>None\<close> and changes nothing, for every platform and user id of the later
  attempt, at every later time, and whatever store operations \<open>ops\<close> ran in between.
\<close>

theorem consume_verify_code_at_most_once:
  assumes "consume_verify_code d now code platform uid = (d1, Some r)"
  shows "consume_verify_code (run d1 ops) now' code platform' uid' = (run d1 ops, None)"
  using assms by (intro consume_spent spent_run spent_after_consume)

theorem consume_verify_code_at_most_once_witness:
  "consume_verify_code ex_token_store 5 ''G-ABCDEF'' ''tg'' 42 =
     (fst (consume_verify_code ex_token_store 5 ''G-ABCDEF'' ''tg'' 42), Some (1, ''group''))
   \<and> snd (consume_verify_code
        (run (fst (consume_verify_code ex_token_store 5 ''G-ABCDEF'' ''tg'' 42))
             [Merge_user_accounts 6 100 200,
              Create_verify_code 7 1 ''tg'' ''group'' 42 [0, 1, 2, 3, 4, 5]])
        8 ''G-ABCDEF'' ''tg'' 42) = None"
proof -
  have h: "consume_verify_code ex_token_store 5 ''G-ABCDEF'' ''tg'' 42 =
     (fst (consume_verify_code ex_token_store 5 ''G-ABCDEF'' ''tg'' 42), Some (1, ''group''))"
    by (simp add: consume_verify_code_def ex_token_store_def empty_store_def)
  show ?thesis
    using h consume_verify_code_at_most_once [OF h] by simp
qed

subsection \<open>Expiry of a verify code\<close>

lemma find_append_fresh:
  "\<not> list_ex P xs \<Longrightarrow> P y \<Longrightarrow> find P (xs @ [y]) = Some y"
  by (induction xs) auto

lemma find_append_absent:
  "\<not> list_ex P xs \<Longrightarrow> \<not> P y \<Longrightarrow> find P (xs @ [y]) = None"
  by (induction xs) auto

lemma create_verify_code_tokens:
  assumes "create_verify_code d issued owner platform chat_type uid picks = Inr (d1, code)"
  shows "\<not> list_ex (\<lambda>r. vt_code r = code) (verify_tokens d)"
    and "verify_tokens d1 = verify_tokens d @
           [\<lparr>vt_code = code, vt_owner_user_id = owner, vt_platform = platform,
             vt_chat_type = chat_type, vt_platform_user_id = uid,
             vt_expires_at = issued + ten_minutes, vt_consumed = False\<rparr>]"
  using assms
  by (auto simp: create_verify_code_def insert_verify_token_def Let_def
           split: sum.splits if_splits)

lemma find_minted:
  assumes "create_verify_code d issued owner platform chat_type uid picks = Inr (d1, code)"
  shows "find (\<lambda>r. vt_code r = code \<and> vt_platform r = p \<and> vt_platform_user_id r = u)
           (verify_tokens d1) =
         (if p = platform \<and> u = uid
          then Some \<lparr>vt_code = code, vt_owner_user_id = owner, vt_platform = platform,
             vt_chat_type = chat_type, vt_platform_user_id = uid,
             vt_expires_at = issued + ten_minutes, vt_consumed = False\<rparr>
          else None)"
proof -
  note t = create_verify_code_tokens [OF assms]
  have fresh: "\<not> list_ex (\<lambda>r. vt_code r = code \<and> vt_platform r = p \<and> vt_platform_user_id r = u)
                 (verify_tokens d)"
    using t(1) by (auto simp: list_ex_iff)
  show ?thesis
  proof (cases "p = platform \<and> u = uid")
    case True
    then show ?thesis
      unfolding t(2) using fresh by (simp add: find_append_fresh)
  next
    case False
    then show ?thesis
      unfolding t(2) using fresh by (auto simp: find_append_absent)
  qed
qed

text \<open>
  Claim C5, as the code has it. The expiry of a token is its issue time plus ten minutes.
  Redemption of an unconsumed token is rejected exactly when the current time is
  strictly after the expiry (\<^verbatim>\<open>expires_at < now\<close>): a redemption at or before the expiry
  instant never fails because of expiry, and a redemption exactly at the expiry instant
  succeeds. The first conjunct is about the token row the lookup finds in any store, the
  second about a token from its minting by \<^verbatim>\<open>create_verify_code\<close> on.
\<close>

theorem verify_code_expiry:
  "(find (\<lambda>r. vt_code r = code \<and> vt_platform r = platform \<and> vt_platform_user_id r = uid)
        (verify_tokens d) = Some row \<and> \<not> vt_consumed row
      \<longrightarrow> (snd (consume_verify_code d now code platform uid) = None) = (vt_expires_at row < now))
   \<and> (create_verify_code d issued owner platform chat_type uid picks = Inr (d1, code)
      \<longrightarrow> snd (consume_verify_code d1 now code platform uid) =
            (if issued + ten_minutes < now then None else Some (owner, chat_type)))"
proof (intro conjI impI)
  assume "find (\<lambda>r. vt_code r = code \<and> vt_platform r = platform \<and> vt_platform_user_id r = uid)
        (verify_tokens d) = Some row \<and> \<not> vt_consumed row"
  then show "(snd (consume_verify_code d now code platform uid) = None) = (vt_expires_at row < now)"
    by (simp add: consume_verify_code_def)
next
  assume "create_verify_code d issued owner platform chat_type uid picks = Inr (d1, code)"
  from find_minted [OF this, of platform uid]
  show "snd (consume_verify_code d1 now code platform uid) =
            (if issued + ten_minutes < now then None else Some (owner, chat_type))"
    by (simp add: consume_verify_code_def)
qed

theorem verify_code_expiry_witness:
  "create_verify_code empty_store 0 1 ''tg'' ''group'' 42 [0, 1, 2, 3, 4, 5] =
     Inr (ex_token_store, ''G-ABCDEF'')
   \<and> snd (consume_verify_code ex_token_store 600000000 ''G-ABCDEF'' ''tg'' 42) = Some (1, ''group'')
   \<and> snd (consume_verify_code ex_token_store 600000001 ''G-ABCDEF'' ''tg'' 42) = None"
proof -
  have h: "create_verify_code empty_store 0 1 ''tg'' ''group'' 42 [0, 1, 2, 3, 4, 5] =
     Inr (ex_token_store, ''G-ABCDEF'')"
    by (simp add: create_verify_code_def insert_verify_token_def gen_code_def population_def
          ex_token_store_def empty_store_def ten_minutes_def Let_def)
  from verify_code_expiry [THEN conjunct2, rule_format, OF h, of 600000000]
       verify_code_expiry [THEN conjunct2, rule_format, OF h, of 600000001]
  show ?thesis using h by (simp add: ten_minutes_def)
qed

text \<open>
  The claim as stated has redemption rejected at the expiry instant itself. A token
  minted at time 0 expires at \<open>0 + ten_minutes\<close>; its redemption at exactly that time
  succeeds.
\<close>

theorem expiry_instant_counterexample:
  "create_verify_code empty_store 0 1 ''tg'' ''group'' 42 [0, 1, 2, 3, 4, 5] =
     Inr (ex_token_store, ''G-ABCDEF'')
   \<and> vt_expires_at (hd (verify_tokens ex_token_store)) = 0 + ten_minutes
   \<and> consume_verify_code ex_token_store (0 + ten_minutes) ''G-ABCDEF'' ''tg'' 42 \<noteq>
       (ex_token_store, None)
   \<and> snd (consume_verify_code ex_token_store (0 + ten_minutes) ''G-ABCDEF'' ''tg'' 42) =
       Some (1, ''group'')"
  by (simp add: create_verify_code_def insert_verify_token_def gen_code_def population_def
        consume_verify_code_def ex_token_store_def empty_store_def ten_minutes_def Let_def)

subsection \<open>A verify code is bound to its platform and user\<close>

text \<open>
  Claim C6. \<^verbatim>\<open>consume_verify_code\<close> returns success only when a stored token has the
  supplied code, the redeeming platform and the redeeming user id, and then returns that
  token's owner and chat type. When every stored token differs from the call in one of
  the three, the result is \<^verbatim>\<open>None\<close> and the store is unchanged. In particular a token
  minted by \<^verbatim>\<open>create_verify_code\<close> for platform \<open>p\<close> and user \<open>u\<close> is rejected for every
  other platform or user.
\<close>

theorem consume_verify_code_binding:
  "(snd (consume_verify_code d now code platform uid) = Some r \<longrightarrow>
      (\<exists>t\<in>set (verify_tokens d). vt_code t = code \<and> vt_platform t = platform
          \<and> vt_platform_user_id t = uid \<and> r = (vt_owner_user_id t, vt_chat_type t)))
   \<and> ((\<forall>t\<in>set (verify_tokens d). vt_code t \<noteq> code \<or> vt_platform t \<noteq> platform
          \<or> vt_platform_user_id t \<noteq> uid)
      \<longrightarrow> consume_verify_code d now code platform uid = (d, None))
   \<and> (create_verify_code d0 issued owner p chat_type u picks = Inr (d1, c)
        \<and> (p' \<noteq> p \<or> u' \<noteq> u)
      \<longrightarrow> consume_verify_code d1 now c p' u' = (d1, None))"
proof (intro conjI impI)
  assume "snd (consume_verify_code d now code platform uid) = Some r"
  then obtain row where
    f: "find (\<lambda>r. vt_code r = code \<and> vt_platform r = platform \<and> vt_platform_user_id r = uid)
          (verify_tokens d) = Some row"
    and r: "r = (vt_owner_user_id row, vt_chat_type row)"
    by (auto simp: consume_verify_code_def split: option.splits if_splits)
  from find_Some_in [OF f] r
  show "\<exists>t\<in>set (verify_tokens d). vt_code t = code \<and> vt_platform t = platform
          \<and> vt_platform_user_id t = uid \<and> r = (vt_owner_user_id t, vt_chat_type t)"
    by auto
next
  assume "\<forall>t\<in>set (verify_tokens d). vt_code t \<noteq> code \<or> vt_platform t \<noteq> platform
          \<or> vt_platform_user_id t \<noteq> uid"
  then have "find (\<lambda>r. vt_code r = code \<and> vt_platform r = platform \<and> vt_platform_user_id r = uid)
          (verify_tokens d) = None"
    by (auto simp: find_None_iff)
  then show "consume_verify_code d now code platform uid = (d, None)"
    by (simp add: consume_verify_code_def)
next
  assume a: "create_verify_code d0 issued owner p chat_type u picks = Inr (d1, c)
        \<and> (p' \<noteq> p \<or> u' \<noteq> u)"
  then have "find (\<lambda>r. vt_code r = c \<and> vt_platform r = p' \<and> vt_platform_user_id r = u')
          (verify_tokens d1) = None"
    using find_minted [of d0 issued owner p chat_type u picks d1 c p' u'] by auto
  then show "consume_verify_code d1 now c p' u' = (d1, None)"
    by (simp add: consume_verify_code_def)
qed

theorem consume_verify_code_binding_witness:
  "create_verify_code empty_store 0 1 ''tg'' ''group'' 42 [0, 1, 2, 3, 4, 5] =
     Inr (ex_token_store, ''G-ABCDEF'')
   \<and> consume_verify_code ex_token_store 5 ''G-ABCDEF'' ''bale'' 42 = (ex_token_store, None)
   \<and> consume_verify_code ex_token_store 5 ''G-ABCDEF'' ''tg'' 43 = (ex_token_store, None)
   \<and> consume_verify_code ex_token_store 5 ''G-ABCDEG'' ''tg'' 42 = (ex_token_store, None)
   \<and> snd (consume_verify_code ex_token_store 5 ''G-ABCDEF'' ''tg'' 42) = Some (1, ''group'')
   \<and> (\<exists>t\<in>set (verify_tokens ex_token_store). vt_code t = ''G-ABCDEF'' \<and> vt_platform t = ''tg''
          \<and> vt_platform_user_id t = 42 \<and> (1, ''group'') = (vt_owner_user_id t, vt_chat_type t))"
proof -
  have h: "create_verify_code empty_store 0 1 ''tg'' ''group'' 42 [0, 1, 2, 3, 4, 5] =
     Inr (ex_token_store, ''G-ABCDEF'')"
    by (simp add: create_verify_code_def insert_verify_token_def gen_code_def population_def
          ex_token_store_def empty_store_def ten_minutes_def Let_def)
  have s: "snd (consume_verify_code ex_token_store 5 ''G-ABCDEF'' ''tg'' 42) = Some (1, ''group'')"
    by (simp add: consume_verify_code_def ex_token_store_def empty_store_def)
  have n: "\<forall>t\<in>set (verify_tokens ex_token_store). vt_code t \<noteq> ''G-ABCDEG'' \<or> vt_platform t \<noteq> ''tg''
          \<or> vt_platform_user_id t \<noteq> 42"
    by (simp add: ex_token_store_def empty_store_def)
  note b = consume_verify_code_binding
  from b [THEN conjunct1, THEN mp, OF s]
       b [THEN conjunct2, THEN conjunct1, THEN mp, OF n]
       b [THEN conjunct2, THEN conjunct2, rule_format, of empty_store 0 1 "''tg''" "''group''" 42
          "[0, 1, 2, 3, 4, 5]" ex_token_store "''G-ABCDEF''" "''bale''" 42 5]
       b [THEN conjunct2, THEN conjunct2, rule_format, of empty_store 0 1 "''tg''" "''group''" 42
          "[0, 1, 2, 3, 4, 5]" ex_token_store "''G-ABCDEF''" "''tg''" 43 5]
  show ?thesis using h s by simp
qed

subsection \<open>Account merge: two different owners\<close>

lemma users_ok_two: "users_ok ex_two_owners"
  by (simp add: users_ok_def ex_two_owners_def empty_store_def)

lemma merge_conflict:
  assumes "truthy (select_user_id_by_tg d tg)" and "truthy (select_user_id_by_bale d b)"
    and "select_user_id_by_tg d tg \<noteq> select_user_id_by_bale d b"
  shows "merge_user_accounts d now tg b = Inl IntegrityError"
proof -
  from assms(1) obtain rt where
    rt: "find (\<lambda>r. u_tg_user_id r = Some tg) (users d) = Some rt"
    by (auto simp: select_user_id_by_tg_def truthy_def split: option.splits)
  from assms(2) obtain rb where
    rb: "find (\<lambda>r. u_bale_user_id r = Some b) (users d) = Some rb"
    by (auto simp: select_user_id_by_bale_def truthy_def split: option.splits)
  from assms(3) rt rb have ne: "u_id rt \<noteq> u_id rb"
    by (simp add: select_user_id_by_tg_def select_user_id_by_bale_def)
  from find_Some_in [OF rt] find_Some_in [OF rb] ne
  have "list_ex (\<lambda>r. u_id r = u_id rb) (users d)"
    and "list_ex (\<lambda>r. u_id r \<noteq> u_id rb \<and> u_tg_user_id r = Some tg) (users d)"
    by (auto simp: list_ex_iff)
  then have "update_users_set_tg (reassign_owner d (u_id rb) (u_id rt)) tg (u_id rb)
             = Inl IntegrityError"
    by (simp add: update_users_set_tg_def reassign_owner_def)
  with assms rt rb show ?thesis
    by (simp add: merge_user_accounts_def select_user_id_by_tg_def select_user_id_by_bale_def)
qed

text \<open>
  Claim C3 says that a merge of two different existing owners returns the owner keyed by
  the Bale identity, with every row of the other owner moved to it and the other owner
  deleted. The code does not get there. It moves the rows, then sets the Telegram identity
  on the Bale owner while the Telegram owner's row still carries that identity, and only
  afterwards would delete that row: the update violates the unique index on
  \<^verbatim>\<open>users(tg_user_id)\<close>. So whenever the two identities resolve to two different
  owners, \<^verbatim>\<open>merge_user_accounts\<close> raises \<^verbatim>\<open>IntegrityError\<close>, and the rollback
  leaves the store as it was.
\<close>

theorem merge_different_owners_raises:
  assumes "truthy (select_user_id_by_tg d tg)" and "truthy (select_user_id_by_bale d b)"
    and "select_user_id_by_tg d tg \<noteq> select_user_id_by_bale d b"
  shows "merge_user_accounts d now tg b = Inl IntegrityError"
  using assms by (rule merge_conflict)

theorem merge_different_owners_raises_witness:
  "(case get_or_create_user_by_tg empty_store 0 100 of
      Inr (d1, i1) \<Rightarrow>
        (case get_or_create_user_by_bale d1 1 200 of
           Inr (d2, i2) \<Rightarrow> register_chat d2 2 i1 ''tg'' ''group'' 5 ''t'')) = Inr ex_two_owners
   \<and> select_user_id_by_tg ex_two_owners 100 = Some 1
   \<and> select_user_id_by_bale ex_two_owners 200 = Some 2
   \<and> merge_user_accounts ex_two_owners 3 100 200 = Inl IntegrityError"
proof -
  have t: "select_user_id_by_tg ex_two_owners 100 = Some 1"
    and b: "select_user_id_by_bale ex_two_owners 200 = Some 2"
    by (simp_all add: select_user_id_by_tg_def select_user_id_by_bale_def ex_two_owners_def
          empty_store_def)
  have r: "(case get_or_create_user_by_tg empty_store 0 100 of
      Inr (d1, i1) \<Rightarrow>
        (case get_or_create_user_by_bale d1 1 200 of
           Inr (d2, i2) \<Rightarrow> register_chat d2 2 i1 ''tg'' ''group'' 5 ''t'')) = Inr ex_two_owners"
    by (simp add: get_or_create_user_by_tg_unfold get_or_create_user_by_bale_unfold
          select_user_id_by_tg_def select_user_id_by_bale_def insert_user_def register_chat_def
          next_rowid_def ex_two_owners_def empty_store_def Let_def)
  from merge_different_owners_raises [of ex_two_owners 100 200 3] t b r
  show ?thesis by (simp add: truthy_def)
qed

subsection \<open>Account merge: no owner yet\<close>

lemma merge_fallback:
  assumes "select_user_id_by_tg d tg = None" and "select_user_id_by_bale d b = None"
  shows "merge_user_accounts d now tg b =
           Inr (d\<lparr>users := users d @
                   [\<lparr>u_id = next_rowid (users_seq d) (map u_id (users d)),
                     u_tg_user_id = Some tg, u_bale_user_id = None,
                     u_dm_target_bale_chat_id = None, u_dm_target_telegram_chat_id = None,
                     u_created_at = now\<rparr>],
                  users_seq := next_rowid (users_seq d) (map u_id (users d))\<rparr>,
                next_rowid (users_seq d) (map u_id (users d)))"
proof -
  from assms(1) have nx: "\<not> list_ex (\<lambda>r. u_tg_user_id r = Some tg) (users d)"
    by (auto simp: select_user_id_by_tg_def find_None_iff list_ex_iff)
  then have "find (\<lambda>r. u_tg_user_id r = Some tg)
          (users d @ [\<lparr>u_id = next_rowid (users_seq d) (map u_id (users d)),
                     u_tg_user_id = Some tg, u_bale_user_id = None,
                     u_dm_target_bale_chat_id = None, u_dm_target_telegram_chat_id = None,
                     u_created_at = now\<rparr>]) =
         Some \<lparr>u_id = next_rowid (users_seq d) (map u_id (users d)),
                     u_tg_user_id = Some tg, u_bale_user_id = None,
                     u_dm_target_bale_chat_id = None, u_dm_target_telegram_chat_id = None,
                     u_created_at = now\<rparr>"
    by (simp add: find_append_fresh)
  with assms nx show ?thesis
    by (simp add: merge_user_accounts_def truthy_def get_or_create_user_by_tg_unfold
          insert_user_def Let_def select_user_id_by_tg_def)
qed

text \<open>
  Claim C4 says that a merge for which neither identity has an owner creates a fresh owner
  with both identities set. The code falls through to \<^verbatim>\<open>get_or_create_user_by_tg\<close>:
  the fresh owner carries the Telegram identity only, its Bale identity is \<^verbatim>\<open>NULL\<close>,
  and the merge returns the id of that owner.
\<close>

theorem merge_no_owner_creates_tg_only:
  assumes "select_user_id_by_tg d tg = None" and "select_user_id_by_bale d b = None"
  shows "merge_user_accounts d now tg b =
           Inr (d\<lparr>users := users d @
                   [\<lparr>u_id = next_rowid (users_seq d) (map u_id (users d)),
                     u_tg_user_id = Some tg, u_bale_user_id = None,
                     u_dm_target_bale_chat_id = None, u_dm_target_telegram_chat_id = None,
                     u_created_at = now\<rparr>],
                  users_seq := next_rowid (users_seq d) (map u_id (users d))\<rparr>,
                next_rowid (users_seq d) (map u_id (users d)))"
  using assms by (rule merge_fallback)

theorem merge_no_owner_creates_tg_only_witness:
  "select_user_id_by_tg empty_store 100 = None \<and> select_user_id_by_bale empty_store 200 = None
   \<and> merge_user_accounts empty_store 0 100 200 =
       Inr (empty_store\<lparr>users :=
              [\<lparr>u_id = 1, u_tg_user_id = Some 100, u_bale_user_id = None,
                u_dm_target_bale_chat_id = None, u_dm_target_telegram_chat_id = None,
                u_created_at = 0\<rparr>],
              users_seq := 1\<rparr>, 1)"
proof -
  have t: "select_user_id_by_tg empty_store 100 = None"
    and b: "select_user_id_by_bale empty_store 200 = None"
    by (simp_all add: select_user_id_by_tg_def select_user_id_by_bale_def empty_store_def)
  from merge_no_owner_creates_tg_only [OF t b, of 0] t b
  show ?thesis by (simp add: next_rowid_def empty_store_def)
qed

subsection \<open>Registering a chat\<close>

text \<open>
  Claim C9, as the code has it. \<^verbatim>\<open>register_chat\<close> never raises. When the
  (platform, chat id) pair is free and platform and chat type pass the \<^verbatim>\<open>CHECK\<close>
  constraints, it inserts exactly one row, with the next rowid and the owner, platform,
  chat type, chat id, title and time of the call; afterwards the pair is registered.
  When the pair is already registered, under whatever owner, the insert is silently
  ignored: no row changes and no conflict is surfaced. In every case the existing chat
  rows stay as they are, owner included, and nothing but the chats table and its rowid
  sequence changes. It is idempotent: a second registration of the same platform, chat
  type and chat id, by any owner, changes no row.
\<close>

theorem register_chat_ignores_conflict:
  "(\<exists>d1. register_chat d now owner platform chat_type chat_id title = Inr d1
       \<and> (chats d1 = chats d \<or> (\<exists>row. chats d1 = chats d @ [row]))
       \<and> (list_ex (\<lambda>r. c_platform r = platform \<and> c_chat_id r = chat_id) (chats d)
            \<longrightarrow> chats d1 = chats d)
       \<and> (\<not> list_ex (\<lambda>r. c_platform r = platform \<and> c_chat_id r = chat_id) (chats d)
            \<and> platform \<in> {''tg'', ''bale''} \<and> chat_type \<in> {''group'', ''channel''}
            \<longrightarrow> chats d1 = chats d @
                  [\<lparr>c_id = next_rowid (chats_seq d) (map c_id (chats d)),
                    c_owner_user_id = owner, c_platform = platform, c_chat_type = chat_type,
                    c_chat_id = chat_id, c_title = Some title, c_created_at = now\<rparr>])
       \<and> (platform \<in> {''tg'', ''bale''} \<and> chat_type \<in> {''group'', ''channel''}
            \<longrightarrow> list_ex (\<lambda>r. c_platform r = platform \<and> c_chat_id r = chat_id) (chats d1))
       \<and> (platform \<notin> {''tg'', ''bale''} \<or> chat_type \<notin> {''group'', ''channel''}
            \<longrightarrow> chats d1 = chats d)
       \<and> chats_seq d1 = next_rowid (chats_seq d) (map c_id (chats d))
       \<and> d1\<lparr>chats := chats d, chats_seq := chats_seq d\<rparr> = d
       \<and> (\<exists>d2. register_chat d1 now' owner' platform chat_type chat_id title' = Inr d2
            \<and> chats d2 = chats d1))"
proof (cases "list_ex (\<lambda>r. c_platform r = platform \<and> c_chat_id r = chat_id) (chats d)
         \<or> platform \<notin> {''tg'', ''bale''} \<or> chat_type \<notin> {''group'', ''channel''}")
  case True
  then have r: "register_chat d now owner platform chat_type chat_id title =
      Inr (d\<lparr>chats_seq := next_rowid (chats_seq d) (map c_id (chats d))\<rparr>)"
    by (simp add: register_chat_def Let_def)
  from True have r2: "register_chat (d\<lparr>chats_seq := next_rowid (chats_seq d) (map c_id (chats d))\<rparr>)
        now' owner' platform chat_type chat_id title' =
      Inr (d\<lparr>chats_seq := next_rowid (next_rowid (chats_seq d) (map c_id (chats d)))
                              (map c_id (chats d))\<rparr>)"
    by (simp add: register_chat_def Let_def)
  from True show ?thesis
    by (auto simp: r r2)
next
  case False
  let ?row = "\<lparr>c_id = next_rowid (chats_seq d) (map c_id (chats d)),
                c_owner_user_id = owner, c_platform = platform, c_chat_type = chat_type,
                c_chat_id = chat_id, c_title = Some title, c_created_at = now\<rparr>"
  let ?d1 = "d\<lparr>chats := chats d @ [?row],
               chats_seq := next_rowid (chats_seq d) (map c_id (chats d))\<rparr>"
  from False have r: "register_chat d now owner platform chat_type chat_id title = Inr ?d1"
    by (simp add: register_chat_def Let_def)
  have "list_ex (\<lambda>r. c_platform r = platform \<and> c_chat_id r = chat_id) (chats ?d1)"
    by (simp add: list_ex_iff)
  then have r2: "register_chat ?d1 now' owner' platform chat_type chat_id title' =
      Inr (?d1\<lparr>chats_seq := next_rowid (chats_seq ?d1) (map c_id (chats ?d1))\<rparr>)"
    by (simp add: register_chat_def Let_def)
  have l: "list_ex (\<lambda>r. c_platform r = platform \<and> c_chat_id r = chat_id) (chats ?d1)"
    by (simp add: list_ex_iff)
  from False l show ?thesis
    by (simp add: r r2)
qed

theorem register_chat_ignores_conflict_witness:
  "register_chat ex_two_owners 9 2 ''tg'' ''group'' 5 ''mine'' =
     Inr (ex_two_owners\<lparr>chats_seq := 2\<rparr>)
   \<and> list_ex (\<lambda>r. c_platform r = ''tg'' \<and> c_chat_id r = 5) (chats ex_two_owners)
   \<and> chats (ex_two_owners\<lparr>chats_seq := 2\<rparr>) = chats ex_two_owners
   \<and> \<not> list_ex (\<lambda>r. c_platform r = ''bale'' \<and> c_chat_id r = 6) (chats ex_two_owners)
   \<and> register_chat ex_two_owners 9 2 ''bale'' ''group'' 6 ''mine'' =
       Inr (ex_two_owners\<lparr>chats := chats ex_two_owners @
              [\<lparr>c_id = 2, c_owner_user_id = 2, c_platform = ''bale'', c_chat_type = ''group'',
                c_chat_id = 6, c_title = Some ''mine'', c_created_at = 9\<rparr>],
            chats_seq := 2\<rparr>)
   \<and> (\<exists>d1. register_chat ex_two_owners 9 2 ''bale'' ''group'' 6 ''mine'' = Inr d1
         \<and> chats d1 = chats ex_two_owners @
              [\<lparr>c_id = 2, c_owner_user_id = 2, c_platform = ''bale'', c_chat_type = ''group'',
                c_chat_id = 6, c_title = Some ''mine'', c_created_at = 9\<rparr>]
         \<and> list_owner_chats d1 2 (Some ''bale'') (Some ''group'') =
              [\<lparr>c_id = 2, c_owner_user_id = 2, c_platform = ''bale'', c_chat_type = ''group'',
                c_chat_id = 6, c_title = Some ''mine'', c_created_at = 9\<rparr>])"
proof -
  have h: "list_ex (\<lambda>r. c_platform r = ''tg'' \<and> c_chat_id r = 5) (chats ex_two_owners)"
    and f: "\<not> list_ex (\<lambda>r. c_platform r = ''bale'' \<and> c_chat_id r = 6) (chats ex_two_owners)"
    and n: "next_rowid (chats_seq ex_two_owners) (map c_id (chats ex_two_owners)) = 2"
    by (simp_all add: ex_two_owners_def empty_store_def next_rowid_def)
  have e: "register_chat ex_two_owners 9 2 ''tg'' ''group'' 5 ''mine'' =
     Inr (ex_two_owners\<lparr>chats_seq := 2\<rparr>)"
    by (simp add: register_chat_def next_rowid_def ex_two_owners_def empty_store_def Let_def)
  have i: "register_chat ex_two_owners 9 2 ''bale'' ''group'' 6 ''mine'' =
       Inr (ex_two_owners\<lparr>chats := chats ex_two_owners @
              [\<lparr>c_id = 2, c_owner_user_id = 2, c_platform = ''bale'', c_chat_type = ''group'',
                c_chat_id = 6, c_title = Some ''mine'', c_created_at = 9\<rparr>],
            chats_seq := 2\<rparr>)"
    by (simp add: register_chat_def next_rowid_def ex_two_owners_def empty_store_def Let_def)
  have l: "list_owner_chats (ex_two_owners\<lparr>chats := chats ex_two_owners @
              [\<lparr>c_id = 2, c_owner_user_id = 2, c_platform = ''bale'', c_chat_type = ''group'',
                c_chat_id = 6, c_title = Some ''mine'', c_created_at = 9\<rparr>],
            chats_seq := 2\<rparr>) 2 (Some ''bale'') (Some ''group'') =
              [\<lparr>c_id = 2, c_owner_user_id = 2, c_platform = ''bale'', c_chat_type = ''group'',
                c_chat_id = 6, c_title = Some ''mine'', c_created_at = 9\<rparr>]"
    by (simp add: list_owner_chats_def ex_two_owners_def empty_store_def)
  from register_chat_ignores_conflict [of ex_two_owners 9 2 "''tg''" "''group''" 5 "''mine''"]
    register_chat_ignores_conflict [of ex_two_owners 9 2 "''bale''" "''group''" 6 "''mine''"]
    h f n e i l show ?thesis by auto
qed

text \<open>
  The claim as stated has the re-registration under a different owner rejected with a
  constraint conflict. Telegram chat 5 is registered to owner 1; owner 2 registers it
  again: the call returns normally, and only the rowid sequence has moved.
\<close>

theorem register_chat_conflict_counterexample:
  "list_ex (\<lambda>r. c_platform r = ''tg'' \<and> c_chat_id r = 5 \<and> c_owner_user_id r = 1)
     (chats ex_two_owners)
   \<and> register_chat ex_two_owners 9 2 ''tg'' ''group'' 5 ''mine'' \<noteq> Inl IntegrityError
   \<and> register_chat ex_two_owners 9 2 ''tg'' ''group'' 5 ''mine'' =
       Inr (ex_two_owners\<lparr>chats_seq := 2\<rparr>)"
  by (simp add: register_chat_def next_rowid_def ex_two_owners_def empty_store_def Let_def)

subsection \<open>The size of the code spaces\<close>

lemma distinct_population: "distinct population" and length_population: "length population = 36"
  by (simp_all add: population_def)

lemma distinct_hex_upper: "distinct hex_upper" and length_hex_upper: "length hex_upper = 16"
  by (simp_all add: hex_upper_def)

lemma inj_on_code_body:
  assumes "distinct cs"
  shows "inj_on (\<lambda>xs. pre @ map (\<lambda>i. cs ! i) xs) {xs. set xs \<subseteq> {..<length cs} \<and> length xs = n}"
proof (rule inj_onI)
  fix xs ys
  assume xs: "xs \<in> {xs. set xs \<subseteq> {..<length cs} \<and> length xs = n}"
    and ys: "ys \<in> {xs. set xs \<subseteq> {..<length cs} \<and> length xs = n}"
    and eq: "pre @ map (\<lambda>i. cs ! i) xs = pre @ map (\<lambda>i. cs ! i) ys"
  have "inj_on (\<lambda>i. cs ! i) (set xs \<union> set ys)"
    using assms xs ys by (intro inj_on_nth) auto
  with eq show "xs = ys"
    by (auto dest: map_inj_on)
qed

lemma card_code_bodies:
  assumes "distinct cs"
  shows "card ((\<lambda>xs. pre @ map (\<lambda>i. cs ! i) xs) ` {xs. set xs \<subseteq> {..<length cs} \<and> length xs = n})
         = length cs ^ n"
  by (simp add: card_image [OF inj_on_code_body [OF assms]] card_lists_length_eq)

lemma card_gen_code_outputs: "card (gen_code_outputs prefix) = 36 ^ 6"
proof -
  have "card (gen_code_outputs prefix) =
      card ((\<lambda>xs. (prefix @ ''-'') @ map (\<lambda>i. population ! i) xs) `
        {xs. set xs \<subseteq> {..<length population} \<and> length xs = 6})"
    by (simp add: gen_code_outputs_def gen_code_def [abs_def])
  also have "\<dots> = length population ^ 6"
    by (rule card_code_bodies [OF distinct_population])
  finally show ?thesis
    by (simp add: length_population)
qed

lemma take8_uuid4: "take 8 ` uuid4_hex = {xs. set xs \<subseteq> {..<length hex_upper} \<and> length xs = 8}"
proof (intro equalityI subsetI)
  fix xs assume "xs \<in> take 8 ` uuid4_hex"
  then show "xs \<in> {xs. set xs \<subseteq> {..<length hex_upper} \<and> length xs = 8}"
    by (auto simp: uuid4_hex_def length_hex_upper dest: in_set_takeD)
next
  fix xs assume "xs \<in> {xs. set xs \<subseteq> {..<length hex_upper} \<and> length xs = 8}"
  then have xs: "set xs \<subseteq> {..<16}" "length xs = 8"
    by (simp_all add: length_hex_upper)
  let ?u = "xs @ [0, 0, 0, 0, 4, 0, 0, 0, 8, 0, 0, 0, 0, 0, 0, 0, 0, 0, 0, 0, 0, 0, 0, 0]"
  have "?u \<in> uuid4_hex"
    using xs by (auto simp: uuid4_hex_def nth_append)
  moreover have "take 8 ?u = xs"
    using xs by simp
  ultimately show "xs \<in> take 8 ` uuid4_hex"
    by (metis imageI)
qed

lemma card_dm_code_outputs: "card dm_code_outputs = 16 ^ 8"
proof -
  have "card dm_code_outputs =
      card ((\<lambda>xs. ''DM-'' @ map (\<lambda>n. hex_upper ! n) xs) ` (take 8 ` uuid4_hex))"
    by (simp add: dm_code_outputs_def dm_code_def [abs_def] image_image)
  also have "\<dots> = length hex_upper ^ 8"
    unfolding take8_uuid4 by (rule card_code_bodies [OF distinct_hex_upper])
  finally show ?thesis
    by (simp add: length_hex_upper)
qed

text \<open>
  Claim C10, as the code has it. \<^verbatim>\<open>gen_code\<close> has exactly \<open>36 ^ 6 = 2176782336\<close>
  possible outputs for a fixed prefix (about 31 bits), and the DM code generator has
  exactly \<open>16 ^ 8 = 4294967296\<close> (32 bits). Both are below \<open>2 ^ 36\<close>.
\<close>

theorem code_space_sizes:
  "card (gen_code_outputs prefix) = 2176782336 \<and> card dm_code_outputs = 4294967296
   \<and> card (gen_code_outputs prefix) < 2 ^ 36 \<and> card dm_code_outputs < 2 ^ 36"
  by (simp add: card_gen_code_outputs card_dm_code_outputs)

text \<open>The claim as stated has at least \<open>2 ^ 36\<close> possible codes for each generator.\<close>

theorem code_space_counterexample:
  "\<not> (2 ^ 36 \<le> card (gen_code_outputs ''G'')) \<and> \<not> (2 ^ 36 \<le> card dm_code_outputs)"
  by (simp add: card_gen_code_outputs card_dm_code_outputs)

subsection \<open>Account merge: idempotence\<close>

lemma fold_max_bounds:
  "seq \<le> fold max ids (seq::int) \<and> (\<forall>i\<in>set ids. i \<le> fold max ids seq)"
proof (induction ids arbitrary: seq)
  case Nil
  show ?case by simp
next
  case (Cons a ids)
  from Cons [of "max a seq"] show ?case by auto
qed

lemma next_rowid_fresh:
  "seq < next_rowid seq ids \<and> (\<forall>i\<in>set ids. i < next_rowid seq ids)"
  using fold_max_bounds [of seq ids] by (auto simp: next_rowid_def)

lemma select_tg_None_iff:
  "select_user_id_by_tg d tg = None \<longleftrightarrow> (\<forall>r\<in>set (users d). u_tg_user_id r \<noteq> Some tg)"
  by (auto simp: select_user_id_by_tg_def find_None_iff)

lemma select_bale_None_iff:
  "select_user_id_by_bale d b = None \<longleftrightarrow> (\<forall>r\<in>set (users d). u_bale_user_id r \<noteq> Some b)"
  by (auto simp: select_user_id_by_bale_def find_None_iff)

lemma select_tg_Some_iff:
  assumes "users_ok d"
  shows "select_user_id_by_tg d tg = Some i \<longleftrightarrow>
           (\<exists>r\<in>set (users d). u_id r = i \<and> u_tg_user_id r = Some tg)"
proof
  assume "select_user_id_by_tg d tg = Some i"
  then obtain r where "find (\<lambda>r. u_tg_user_id r = Some tg) (users d) = Some r" "u_id r = i"
    by (auto simp: select_user_id_by_tg_def)
  with find_Some_in [of "\<lambda>r. u_tg_user_id r = Some tg" "users d" r]
  show "\<exists>r\<in>set (users d). u_id r = i \<and> u_tg_user_id r = Some tg" by auto
next
  assume "\<exists>r\<in>set (users d). u_id r = i \<and> u_tg_user_id r = Some tg"
  then obtain r where r: "r \<in> set (users d)" "u_id r = i" "u_tg_user_id r = Some tg" by auto
  then have "select_user_id_by_tg d tg \<noteq> None"
    by (auto simp: select_tg_None_iff)
  then obtain r0 where f: "find (\<lambda>r. u_tg_user_id r = Some tg) (users d) = Some r0"
    by (auto simp: select_user_id_by_tg_def)
  from find_Some_in [OF f] have "r0 \<in> set (users d)" "u_tg_user_id r0 = Some tg" by auto
  with r assms have "u_id r0 = u_id r"
    unfolding users_ok_def by (metis option.distinct(1))
  with f r show "select_user_id_by_tg d tg = Some i"
    by (simp add: select_user_id_by_tg_def)
qed

lemma select_bale_Some_iff:
  assumes "users_ok d"
  shows "select_user_id_by_bale d b = Some i \<longleftrightarrow>
           (\<exists>r\<in>set (users d). u_id r = i \<and> u_bale_user_id r = Some b)"
proof
  assume "select_user_id_by_bale d b = Some i"
  then obtain r where "find (\<lambda>r. u_bale_user_id r = Some b) (users d) = Some r" "u_id r = i"
    by (auto simp: select_user_id_by_bale_def)
  with find_Some_in [of "\<lambda>r. u_bale_user_id r = Some b" "users d" r]
  show "\<exists>r\<in>set (users d). u_id r = i \<and> u_bale_user_id r = Some b" by auto
next
  assume "\<exists>r\<in>set (users d). u_id r = i \<and> u_bale_user_id r = Some b"
  then obtain r where r: "r \<in> set (users d)" "u_id r = i" "u_bale_user_id r = Some b" by auto
  then have "select_user_id_by_bale d b \<noteq> None"
    by (auto simp: select_bale_None_iff)
  then obtain r0 where f: "find (\<lambda>r. u_bale_user_id r = Some b) (users d) = Some r0"
    by (auto simp: select_user_id_by_bale_def)
  from find_Some_in [OF f] have "r0 \<in> set (users d)" "u_bale_user_id r0 = Some b" by auto
  with r assms have "u_id r0 = u_id r"
    unfolding users_ok_def by (metis option.distinct(1))
  with f r show "select_user_id_by_bale d b = Some i"
    by (simp add: select_user_id_by_bale_def)
qed

lemma select_positive:
  assumes "users_ok d"
  shows "select_user_id_by_tg d tg = Some i \<Longrightarrow> 0 < i"
    and "select_user_id_by_bale d b = Some j \<Longrightarrow> 0 < j"
  using assms
  by (auto simp: select_tg_Some_iff select_bale_Some_iff users_ok_def)

text \<open>The users table after the two identity updates, when the unique index allows them.\<close>

lemma map_id_set_bale:
  "map u_id (map (\<lambda>r. if u_id r = t then r\<lparr>u_bale_user_id := v\<rparr> else r) xs) = map u_id xs"
  by (induction xs) auto

lemma map_id_set_tg:
  "map u_id (map (\<lambda>r. if u_id r = t then r\<lparr>u_tg_user_id := v\<rparr> else r) xs) = map u_id xs"
  by (induction xs) auto

lemma users_ok_set_bale:
  assumes ok: "users_ok d"
    and free: "\<forall>r\<in>set (users d). u_bale_user_id r = Some b \<longrightarrow> u_id r = t"
    and d1: "users d1 = map (\<lambda>r. if u_id r = t then r\<lparr>u_bale_user_id := Some b\<rparr> else r) (users d)"
       "users_seq d1 = users_seq d"
  shows "users_ok d1"
proof -
  let ?f = "\<lambda>r. if u_id r = t then r\<lparr>u_bale_user_id := Some b\<rparr> else r"
  have id: "\<And>r. u_id (?f r) = u_id r" and tg: "\<And>r. u_tg_user_id (?f r) = u_tg_user_id r"
    by auto
  have bale: "\<And>r. u_bale_user_id (?f r) = (if u_id r = t then Some b else u_bale_user_id r)"
    by auto
  show ?thesis
    unfolding users_ok_def d1
  proof (intro conjI)
    show "distinct (map u_id (map ?f (users d)))"
      unfolding map_id_set_bale using ok by (simp add: users_ok_def)
    show "\<forall>r\<in>set (map ?f (users d)). 0 < u_id r"
      using ok by (auto simp: users_ok_def)
    show "0 \<le> users_seq d"
      using ok by (simp add: users_ok_def)
    show "\<forall>r\<in>set (map ?f (users d)). \<forall>r'\<in>set (map ?f (users d)).
          u_tg_user_id r \<noteq> None \<and> u_tg_user_id r = u_tg_user_id r' \<longrightarrow> u_id r = u_id r'"
    proof (intro ballI impI)
      fix r r'
      assume m: "r \<in> set (map ?f (users d))" "r' \<in> set (map ?f (users d))"
      assume e: "u_tg_user_id r \<noteq> None \<and> u_tg_user_id r = u_tg_user_id r'"
      from m obtain q q' where q: "q \<in> set (users d)" "r = ?f q"
        and q': "q' \<in> set (users d)" "r' = ?f q'"
        by auto
      from e have "u_tg_user_id q \<noteq> None \<and> u_tg_user_id q = u_tg_user_id q'"
        unfolding q q' tg .
      with q q' have "u_id q = u_id q'"
        using ok unfolding users_ok_def by blast
      then show "u_id r = u_id r'" unfolding q q' id .
    qed
    show "\<forall>r\<in>set (map ?f (users d)). \<forall>r'\<in>set (map ?f (users d)).
          u_bale_user_id r \<noteq> None \<and> u_bale_user_id r = u_bale_user_id r' \<longrightarrow> u_id r = u_id r'"
    proof (intro ballI impI)
      fix r r'
      assume m: "r \<in> set (map ?f (users d))" "r' \<in> set (map ?f (users d))"
      assume e: "u_bale_user_id r \<noteq> None \<and> u_bale_user_id r = u_bale_user_id r'"
      from m obtain q q' where q: "q \<in> set (users d)" "r = ?f q"
        and q': "q' \<in> set (users d)" "r' = ?f q'"
        by auto
      from e have e': "(if u_id q = t then Some b else u_bale_user_id q) \<noteq> None
        \<and> (if u_id q = t then Some b else u_bale_user_id q)
           = (if u_id q' = t then Some b else u_bale_user_id q')"
        unfolding q q' bale .
      have uniq: "\<And>x y. x \<in> set (users d) \<Longrightarrow> y \<in> set (users d) \<Longrightarrow>
          u_bale_user_id x \<noteq> None \<Longrightarrow> u_bale_user_id x = u_bale_user_id y \<Longrightarrow> u_id x = u_id y"
        using ok unfolding users_ok_def by blast
      have "u_id q = u_id q'"
      proof (cases "u_id q = t")
        case qt: True
        show ?thesis
        proof (cases "u_id q' = t")
          case True
          with qt show ?thesis by simp
        next
          case False
          with qt e' have "u_bale_user_id q' = Some b" by simp
          with free q' False show ?thesis by blast
        qed
      next
        case qt: False
        show ?thesis
        proof (cases "u_id q' = t")
          case True
          with qt e' have "u_bale_user_id q = Some b" by simp
          with free q qt show ?thesis by blast
        next
          case False
          note e' [unfolded if_not_P [OF qt] if_not_P [OF False]]
          with uniq [OF q(1) q'(1)] show ?thesis by blast
        qed
      qed
      then show "u_id r = u_id r'" unfolding q q' id .
    qed
  qed
qed

lemma users_ok_set_tg:
  assumes ok: "users_ok d"
    and free: "\<forall>r\<in>set (users d). u_tg_user_id r = Some tg \<longrightarrow> u_id r = t"
    and d1: "users d1 = map (\<lambda>r. if u_id r = t then r\<lparr>u_tg_user_id := Some tg\<rparr> else r) (users d)"
       "users_seq d1 = users_seq d"
  shows "users_ok d1"
proof -
  let ?f = "\<lambda>r. if u_id r = t then r\<lparr>u_tg_user_id := Some tg\<rparr> else r"
  have id: "\<And>r. u_id (?f r) = u_id r" and bale: "\<And>r. u_bale_user_id (?f r) = u_bale_user_id r"
    by auto
  have tg: "\<And>r. u_tg_user_id (?f r) = (if u_id r = t then Some tg else u_tg_user_id r)"
    by auto
  show ?thesis
    unfolding users_ok_def d1
  proof (intro conjI)
    show "distinct (map u_id (map ?f (users d)))"
      unfolding map_id_set_tg using ok by (simp add: users_ok_def)
    show "\<forall>r\<in>set (map ?f (users d)). 0 < u_id r"
      using ok by (auto simp: users_ok_def)
    show "0 \<le> users_seq d"
      using ok by (simp add: users_ok_def)
    show "\<forall>r\<in>set (map ?f (users d)). \<forall>r'\<in>set (map ?f (users d)).
          u_bale_user_id r \<noteq> None \<and> u_bale_user_id r = u_bale_user_id r' \<longrightarrow> u_id r = u_id r'"
    proof (intro ballI impI)
      fix r r'
      assume m: "r \<in> set (map ?f (users d))" "r' \<in> set (map ?f (users d))"
      assume e: "u_bale_user_id r \<noteq> None \<and> u_bale_user_id r = u_bale_user_id r'"
      from m obtain q q' where q: "q \<in> set (users d)" "r = ?f q"
        and q': "q' \<in> set (users d)" "r' = ?f q'"
        by auto
      from e have "u_bale_user_id q \<noteq> None \<and> u_bale_user_id q = u_bale_user_id q'"
        unfolding q q' bale .
      with q q' have "u_id q = u_id q'"
        using ok unfolding users_ok_def by blast
      then show "u_id r = u_id r'" unfolding q q' id .
    qed
    show "\<forall>r\<in>set (map ?f (users d)). \<forall>r'\<in>set (map ?f (users d)).
          u_tg_user_id r \<noteq> None \<and> u_tg_user_id r = u_tg_user_id r' \<longrightarrow> u_id r = u_id r'"
    proof (intro ballI impI)
      fix r r'
      assume m: "r \<in> set (map ?f (users d))" "r' \<in> set (map ?f (users d))"
      assume e: "u_tg_user_id r \<noteq> None \<and> u_tg_user_id r = u_tg_user_id r'"
      from m obtain q q' where q: "q \<in> set (users d)" "r = ?f q"
        and q': "q' \<in> set (users d)" "r' = ?f q'"
        by auto
      from e have e': "(if u_id q = t then Some tg else u_tg_user_id q) \<noteq> None
        \<and> (if u_id q = t then Some tg else u_tg_user_id q)
           = (if u_id q' = t then Some tg else u_tg_user_id q')"
        unfolding q q' tg .
      have uniq: "\<And>x y. x \<in> set (users d) \<Longrightarrow> y \<in> set (users d) \<Longrightarrow>
          u_tg_user_id x \<noteq> None \<Longrightarrow> u_tg_user_id x = u_tg_user_id y \<Longrightarrow> u_id x = u_id y"
        using ok unfolding users_ok_def by blast
      have "u_id q = u_id q'"
      proof (cases "u_id q = t")
        case qt: True
        show ?thesis
        proof (cases "u_id q' = t")
          case True
          with qt show ?thesis by simp
        next
          case False
          with qt e' have "u_tg_user_id q' = Some tg" by simp
          with free q' False show ?thesis by blast
        qed
      next
        case qt: False
        show ?thesis
        proof (cases "u_id q' = t")
          case True
          with qt e' have "u_tg_user_id q = Some tg" by simp
          with free q qt show ?thesis by blast
        next
          case False
          note e' [unfolded if_not_P [OF qt] if_not_P [OF False]]
          with uniq [OF q(1) q'(1)] show ?thesis by blast
        qed
      qed
      then show "u_id r = u_id r'" unfolding q q' id .
    qed
  qed
qed


lemma truthy_select:
  assumes "users_ok d"
  shows "truthy (select_user_id_by_tg d tg) = (select_user_id_by_tg d tg \<noteq> None)"
    and "truthy (select_user_id_by_bale d b) = (select_user_id_by_bale d b \<noteq> None)"
proof -
  show "truthy (select_user_id_by_tg d tg) = (select_user_id_by_tg d tg \<noteq> None)"
    using select_positive(1) [OF assms, of tg]
    by (cases "select_user_id_by_tg d tg") (auto simp: truthy_def)
  show "truthy (select_user_id_by_bale d b) = (select_user_id_by_bale d b \<noteq> None)"
    using select_positive(2) [OF assms, of b]
    by (cases "select_user_id_by_bale d b") (auto simp: truthy_def)
qed

lemma tg_rows_of_owner:
  assumes ok: "users_ok d" and T: "select_user_id_by_tg d tg = None \<or> select_user_id_by_tg d tg = Some i"
  shows "\<forall>r\<in>set (users d). u_tg_user_id r = Some tg \<longrightarrow> u_id r = i"
proof (intro ballI impI)
  fix r assume r: "r \<in> set (users d)" "u_tg_user_id r = Some tg"
  then have "select_user_id_by_tg d tg = Some (u_id r)"
    using select_tg_Some_iff [OF ok] by blast
  with T show "u_id r = i" by auto
qed

lemma bale_rows_of_owner:
  assumes ok: "users_ok d" and B: "select_user_id_by_bale d b = None \<or> select_user_id_by_bale d b = Some i"
  shows "\<forall>r\<in>set (users d). u_bale_user_id r = Some b \<longrightarrow> u_id r = i"
proof (intro ballI impI)
  fix r assume r: "r \<in> set (users d)" "u_bale_user_id r = Some b"
  then have "select_user_id_by_bale d b = Some (u_id r)"
    using select_bale_Some_iff [OF ok] by blast
  with B show "u_id r = i" by auto
qed

lemma merge_link_bale:
  assumes ok: "users_ok d"
    and T: "select_user_id_by_tg d tg = Some t" and B: "select_user_id_by_bale d b = None"
  shows "merge_user_accounts d now tg b =
           Inr (d\<lparr>users := map (\<lambda>r. if u_id r = t then r\<lparr>u_bale_user_id := Some b\<rparr> else r)
                               (users d)\<rparr>, t)"
proof -
  from B have "\<not> list_ex (\<lambda>r. u_id r \<noteq> t \<and> u_bale_user_id r = Some b) (users d)"
    by (auto simp: select_bale_None_iff list_ex_iff)
  then have "update_users_set_bale d b t =
      Inr (d\<lparr>users := map (\<lambda>r. if u_id r = t then r\<lparr>u_bale_user_id := Some b\<rparr> else r)
                               (users d)\<rparr>)"
    by (simp add: update_users_set_bale_def)
  moreover have "truthy (select_user_id_by_tg d tg)" "\<not> truthy (select_user_id_by_bale d b)"
    unfolding truthy_select [OF ok] using T B by simp_all
  ultimately show ?thesis
    using T B by (simp add: merge_user_accounts_def)
qed

lemma merge_link_tg:
  assumes ok: "users_ok d"
    and B: "select_user_id_by_bale d b = Some bo"
    and T: "select_user_id_by_tg d tg = None \<or> select_user_id_by_tg d tg = Some bo"
  shows "merge_user_accounts d now tg b =
           Inr (d\<lparr>users := map (\<lambda>r. if u_id r = bo then r\<lparr>u_tg_user_id := Some tg\<rparr> else r)
                               (users d)\<rparr>, bo)"
proof -
  from tg_rows_of_owner [OF ok T]
  have "\<not> list_ex (\<lambda>r. u_id r \<noteq> bo \<and> u_tg_user_id r = Some tg) (users d)"
    by (auto simp: list_ex_iff)
  then have u: "update_users_set_tg d tg bo =
      Inr (d\<lparr>users := map (\<lambda>r. if u_id r = bo then r\<lparr>u_tg_user_id := Some tg\<rparr> else r)
                               (users d)\<rparr>)"
    by (simp add: update_users_set_tg_def)
  have tb: "truthy (select_user_id_by_bale d b)"
    unfolding truthy_select [OF ok] using B by simp
  from T show ?thesis
  proof
    assume "select_user_id_by_tg d tg = None"
    with u tb B show ?thesis
      by (simp add: merge_user_accounts_def truthy_def)
  next
    assume "select_user_id_by_tg d tg = Some bo"
    with u tb B show ?thesis
      by (simp add: merge_user_accounts_def)
  qed
qed

lemma post_link_bale:
  assumes ok: "users_ok d"
    and T: "select_user_id_by_tg d tg = Some t" and B: "select_user_id_by_bale d b = None"
    and d1: "d1 = d\<lparr>users := map (\<lambda>r. if u_id r = t then r\<lparr>u_bale_user_id := Some b\<rparr> else r)
                               (users d)\<rparr>"
  shows "users_ok d1" and "select_user_id_by_tg d1 tg = Some t"
    and "select_user_id_by_bale d1 b = Some t"
proof -
  let ?f = "\<lambda>r. if u_id r = t then r\<lparr>u_bale_user_id := Some b\<rparr> else r"
  have u1: "users d1 = map ?f (users d)" and s1: "users_seq d1 = users_seq d"
    unfolding d1 by simp_all
  from B have free: "\<forall>r\<in>set (users d). u_bale_user_id r = Some b \<longrightarrow> u_id r = t"
    by (auto simp: select_bale_None_iff)
  show ok1: "users_ok d1"
    by (rule users_ok_set_bale [OF ok free u1 s1])
  from T obtain r0 where r0: "r0 \<in> set (users d)" "u_id r0 = t" "u_tg_user_id r0 = Some tg"
    using select_tg_Some_iff [OF ok] by blast
  then have m: "?f r0 \<in> set (users d1)" "u_id (?f r0) = t" "u_tg_user_id (?f r0) = Some tg"
    "u_bale_user_id (?f r0) = Some b"
    unfolding u1 by auto
  from m show "select_user_id_by_tg d1 tg = Some t"
    unfolding select_tg_Some_iff [OF ok1] by blast
  from m show "select_user_id_by_bale d1 b = Some t"
    unfolding select_bale_Some_iff [OF ok1] by blast
qed

lemma post_link_tg:
  assumes ok: "users_ok d"
    and B: "select_user_id_by_bale d b = Some bo"
    and T: "select_user_id_by_tg d tg = None \<or> select_user_id_by_tg d tg = Some bo"
    and d1: "d1 = d\<lparr>users := map (\<lambda>r. if u_id r = bo then r\<lparr>u_tg_user_id := Some tg\<rparr> else r)
                               (users d)\<rparr>"
  shows "users_ok d1" and "select_user_id_by_tg d1 tg = Some bo"
    and "select_user_id_by_bale d1 b = Some bo"
proof -
  let ?f = "\<lambda>r. if u_id r = bo then r\<lparr>u_tg_user_id := Some tg\<rparr> else r"
  have u1: "users d1 = map ?f (users d)" and s1: "users_seq d1 = users_seq d"
    unfolding d1 by simp_all
  show ok1: "users_ok d1"
    by (rule users_ok_set_tg [OF ok tg_rows_of_owner [OF ok T] u1 s1])
  from B obtain r0 where r0: "r0 \<in> set (users d)" "u_id r0 = bo" "u_bale_user_id r0 = Some b"
    using select_bale_Some_iff [OF ok] by blast
  then have m: "?f r0 \<in> set (users d1)" "u_id (?f r0) = bo" "u_tg_user_id (?f r0) = Some tg"
    "u_bale_user_id (?f r0) = Some b"
    unfolding u1 by auto
  from m show "select_user_id_by_tg d1 tg = Some bo"
    unfolding select_tg_Some_iff [OF ok1] by blast
  from m show "select_user_id_by_bale d1 b = Some bo"
    unfolding select_bale_Some_iff [OF ok1] by blast
qed

lemma post_create:
  assumes ok: "users_ok d"
    and T: "select_user_id_by_tg d tg = None" and B: "select_user_id_by_bale d b = None"
    and d1: "d1 = d\<lparr>users := users d @
                   [\<lparr>u_id = next_rowid (users_seq d) (map u_id (users d)),
                     u_tg_user_id = Some tg, u_bale_user_id = None,
                     u_dm_target_bale_chat_id = None, u_dm_target_telegram_chat_id = None,
                     u_created_at = now\<rparr>],
                  users_seq := next_rowid (users_seq d) (map u_id (users d))\<rparr>"
  shows "users_ok d1"
    and "select_user_id_by_tg d1 tg = Some (next_rowid (users_seq d) (map u_id (users d)))"
    and "select_user_id_by_bale d1 b = None"
proof -
  let ?n = "next_rowid (users_seq d) (map u_id (users d))"
  let ?row = "\<lparr>u_id = ?n, u_tg_user_id = Some tg, u_bale_user_id = None,
                     u_dm_target_bale_chat_id = None, u_dm_target_telegram_chat_id = None,
                     u_created_at = now\<rparr>"
  have u1: "users d1 = users d @ [?row]" and s1: "users_seq d1 = ?n"
    unfolding d1 by simp_all
  have okd: "distinct (map u_id (users d))" and okp: "\<forall>r\<in>set (users d). 0 < u_id r"
    and oks: "0 \<le> users_seq d"
    using ok by (simp_all add: users_ok_def)
  have fresh: "\<forall>r\<in>set (users d). u_id r < ?n"
    using next_rowid_fresh [of "users_seq d" "map u_id (users d)"] by simp
  have pos: "0 < ?n"
    using next_rowid_fresh [of "users_seq d" "map u_id (users d)"] oks by simp
  from T have notg: "\<forall>r\<in>set (users d). u_tg_user_id r \<noteq> Some tg"
    by (simp add: select_tg_None_iff)
  from B have nob: "\<forall>r\<in>set (users d). u_bale_user_id r \<noteq> Some b"
    by (simp add: select_bale_None_iff)
  show ok1: "users_ok d1"
    unfolding users_ok_def u1 s1
  proof (intro conjI)
    have "?n \<notin> u_id ` set (users d)"
      using fresh by auto
    then show "distinct (map u_id (users d @ [?row]))"
      using okd by simp
    show "\<forall>r\<in>set (users d @ [?row]). 0 < u_id r"
      using okp pos by simp
    show "0 \<le> ?n" using pos by simp
    show "\<forall>r\<in>set (users d @ [?row]). \<forall>r'\<in>set (users d @ [?row]).
          u_tg_user_id r \<noteq> None \<and> u_tg_user_id r = u_tg_user_id r' \<longrightarrow> u_id r = u_id r'"
    proof (intro ballI impI)
      fix r r'
      assume m: "r \<in> set (users d @ [?row])" "r' \<in> set (users d @ [?row])"
      assume e: "u_tg_user_id r \<noteq> None \<and> u_tg_user_id r = u_tg_user_id r'"
      have uniq: "\<And>x y. x \<in> set (users d) \<Longrightarrow> y \<in> set (users d) \<Longrightarrow>
          u_tg_user_id x \<noteq> None \<and> u_tg_user_id x = u_tg_user_id y \<Longrightarrow> u_id x = u_id y"
        using ok unfolding users_ok_def by blast
      from m have "r = ?row \<or> r \<in> set (users d)" "r' = ?row \<or> r' \<in> set (users d)" by auto
      then show "u_id r = u_id r'"
      proof (elim disjE)
        assume "r = ?row" "r' = ?row" then show ?thesis by simp
      next
        assume a: "r = ?row" "r' \<in> set (users d)"
        from e a(1) have "u_tg_user_id r' = Some tg" by simp
        with notg a(2) show ?thesis by blast
      next
        assume a: "r \<in> set (users d)" "r' = ?row"
        from e a(2) have "u_tg_user_id r = Some tg" by simp
        with notg a(1) show ?thesis by blast
      next
        assume "r \<in> set (users d)" "r' \<in> set (users d)"
        with uniq e show ?thesis by blast
      qed
    qed
    show "\<forall>r\<in>set (users d @ [?row]). \<forall>r'\<in>set (users d @ [?row]).
          u_bale_user_id r \<noteq> None \<and> u_bale_user_id r = u_bale_user_id r' \<longrightarrow> u_id r = u_id r'"
    proof (intro ballI impI)
      fix r r'
      assume m: "r \<in> set (users d @ [?row])" "r' \<in> set (users d @ [?row])"
      assume e: "u_bale_user_id r \<noteq> None \<and> u_bale_user_id r = u_bale_user_id r'"
      have uniq: "\<And>x y. x \<in> set (users d) \<Longrightarrow> y \<in> set (users d) \<Longrightarrow>
          u_bale_user_id x \<noteq> None \<and> u_bale_user_id x = u_bale_user_id y \<Longrightarrow> u_id x = u_id y"
        using ok unfolding users_ok_def by blast
      from m have "r = ?row \<or> r \<in> set (users d)" "r' = ?row \<or> r' \<in> set (users d)" by auto
      then show "u_id r = u_id r'"
      proof (elim disjE)
        assume "r = ?row" "r' = ?row" then show ?thesis by simp
      next
        assume "r = ?row" "r' \<in> set (users d)"
        with e show ?thesis by simp
      next
        assume "r \<in> set (users d)" "r' = ?row"
        with e show ?thesis by auto
      next
        assume "r \<in> set (users d)" "r' \<in> set (users d)"
        with uniq e show ?thesis by blast
      qed
    qed
  qed
  have "?row \<in> set (users d1)" "u_id ?row = ?n" "u_tg_user_id ?row = Some tg"
    unfolding u1 by simp_all
  then show "select_user_id_by_tg d1 tg = Some ?n"
    unfolding select_tg_Some_iff [OF ok1] by blast
  show "select_user_id_by_bale d1 b = None"
    unfolding select_bale_None_iff u1 using nob by simp
qed


lemma map_ids_unchanged:
  "users_ok d \<Longrightarrow> users d1 = map (\<lambda>r. if u_id r = t then r\<lparr>u_tg_user_id := v\<rparr> else r) (users d)
     \<Longrightarrow> map u_id (users d1) = map u_id (users d)"
  "users_ok d \<Longrightarrow> users d1 = map (\<lambda>r. if u_id r = t then r\<lparr>u_bale_user_id := w\<rparr> else r) (users d)
     \<Longrightarrow> map u_id (users d1) = map u_id (users d)"
  by (simp_all add: map_id_set_tg map_id_set_bale)

lemma merge_same_owner_noop:
  assumes ok: "users_ok d"
    and T: "select_user_id_by_tg d tg = Some i" and B: "select_user_id_by_bale d b = Some i"
  shows "merge_user_accounts d now tg b = Inr (d, i)"
proof -
  have "\<And>r. r \<in> set (users d) \<Longrightarrow>
          (if u_id r = i then r\<lparr>u_tg_user_id := Some tg\<rparr> else r) = r"
  proof -
    fix r assume r: "r \<in> set (users d)"
    from T obtain r0 where r0: "r0 \<in> set (users d)" "u_id r0 = i" "u_tg_user_id r0 = Some tg"
      using select_tg_Some_iff [OF ok] by blast
    show "(if u_id r = i then r\<lparr>u_tg_user_id := Some tg\<rparr> else r) = r"
    proof (cases "u_id r = i")
      case True
      from ok have "inj_on u_id (set (users d))"
        by (simp add: users_ok_def distinct_map)
      with r r0 True have "r = r0" by (auto dest: inj_onD)
      with r0 True show ?thesis by simp
    next
      case False
      then show ?thesis by simp
    qed
  qed
  then have "map (\<lambda>r. if u_id r = i then r\<lparr>u_tg_user_id := Some tg\<rparr> else r) (users d) = users d"
    by (simp add: map_idI)
  with merge_link_tg [OF ok B, of tg now] T show ?thesis by simp
qed

text \<open>
  Claim C7. \<^verbatim>\<open>merge_user_accounts\<close> is idempotent on every store that satisfies the
  schema constraints of the users table. When a call returns owner \<open>i\<close>, a second call
  with the same pair of identities returns \<open>i\<close> again and the users table has the
  same row ids as before: no row is added. When a call raises, the rolled-back store is
  the one before the call, and the second call raises the same error. When both
  identities already resolve to the same owner, the call returns that owner and leaves
  the store as it is.
\<close>

theorem merge_user_accounts_idempotent:
  assumes ok: "users_ok d"
  shows "(merge_user_accounts d now tg b = Inr (d1, i) \<longrightarrow>
            (\<exists>d2. merge_user_accounts d1 now' tg b = Inr (d2, i)
                  \<and> map u_id (users d2) = map u_id (users d1)))
       \<and> (merge_user_accounts d now tg b = Inl e \<longrightarrow> merge_user_accounts d now' tg b = Inl e)
       \<and> (select_user_id_by_tg d tg = Some i \<and> select_user_id_by_bale d b = Some i \<longrightarrow>
            merge_user_accounts d now tg b = Inr (d, i))"
proof (intro conjI impI)
  assume "select_user_id_by_tg d tg = Some i \<and> select_user_id_by_bale d b = Some i"
  then show "merge_user_accounts d now tg b = Inr (d, i)"
    using merge_same_owner_noop [OF ok] by blast
next
  assume m: "merge_user_accounts d now tg b = Inl e"
  show "merge_user_accounts d now' tg b = Inl e"
  proof (cases "select_user_id_by_tg d tg")
    case None
    show ?thesis
    proof (cases "select_user_id_by_bale d b")
      case bn: None
      from merge_fallback [OF None bn, of now] m show ?thesis by simp
    next
      case (Some bo)
      from merge_link_tg [OF ok Some, of tg now] None m show ?thesis by simp
    qed
  next
    case (Some t)
    show ?thesis
    proof (cases "select_user_id_by_bale d b")
      case None
      from merge_link_bale [OF ok Some None, of now] m show ?thesis by simp
    next
      case bs: (Some bo)
      show ?thesis
      proof (cases "t = bo")
        case True
        from merge_link_tg [OF ok bs, of tg now] Some True m show ?thesis by simp
      next
        case False
        have "truthy (select_user_id_by_tg d tg)" "truthy (select_user_id_by_bale d b)"
          unfolding truthy_select [OF ok] using Some bs by simp_all
        moreover have "select_user_id_by_tg d tg \<noteq> select_user_id_by_bale d b"
          using Some bs False by simp
        ultimately have "\<And>t. merge_user_accounts d t tg b = Inl IntegrityError"
          by (rule merge_conflict)
        with m show ?thesis by simp
      qed
    qed
  qed
next
  assume m: "merge_user_accounts d now tg b = Inr (d1, i)"
  have again: "\<exists>d2. merge_user_accounts d1 now' tg b = Inr (d2, i)
                  \<and> map u_id (users d2) = map u_id (users d1)"
    if ok1: "users_ok d1" and T1: "select_user_id_by_tg d1 tg = Some i"
      and B1: "select_user_id_by_bale d1 b = None \<or> select_user_id_by_bale d1 b = Some i"
  proof -
    from B1 show ?thesis
    proof
      assume "select_user_id_by_bale d1 b = None"
      from merge_link_bale [OF ok1 T1 this, of now'] show ?thesis
        by (simp add: map_id_set_bale)
    next
      assume "select_user_id_by_bale d1 b = Some i"
      from merge_link_tg [OF ok1 this, of tg now'] T1 show ?thesis
        by (simp add: map_id_set_tg)
    qed
  qed
  show "\<exists>d2. merge_user_accounts d1 now' tg b = Inr (d2, i)
                  \<and> map u_id (users d2) = map u_id (users d1)"
  proof (cases "select_user_id_by_tg d tg")
    case None
    show ?thesis
    proof (cases "select_user_id_by_bale d b")
      case bn: None
      from merge_fallback [OF None bn, of now] m
      have d1: "d1 = d\<lparr>users := users d @
                   [\<lparr>u_id = next_rowid (users_seq d) (map u_id (users d)),
                     u_tg_user_id = Some tg, u_bale_user_id = None,
                     u_dm_target_bale_chat_id = None, u_dm_target_telegram_chat_id = None,
                     u_created_at = now\<rparr>],
                  users_seq := next_rowid (users_seq d) (map u_id (users d))\<rparr>"
        and i: "i = next_rowid (users_seq d) (map u_id (users d))"
        by simp_all
      from post_create [OF ok None bn d1] i show ?thesis
        by (intro again) simp_all
    next
      case (Some bo)
      from merge_link_tg [OF ok Some, of tg now] None m
      have d1: "d1 = d\<lparr>users := map (\<lambda>r. if u_id r = bo then r\<lparr>u_tg_user_id := Some tg\<rparr> else r)
                               (users d)\<rparr>" and i: "i = bo"
        by simp_all
      from None have T': "select_user_id_by_tg d tg = None \<or> select_user_id_by_tg d tg = Some bo"
        by simp
      from post_link_tg [OF ok Some T' d1] i show ?thesis
        by (intro again) simp_all
    qed
  next
    case (Some t)
    show ?thesis
    proof (cases "select_user_id_by_bale d b")
      case None
      from merge_link_bale [OF ok Some None, of now] m
      have d1: "d1 = d\<lparr>users := map (\<lambda>r. if u_id r = t then r\<lparr>u_bale_user_id := Some b\<rparr> else r)
                               (users d)\<rparr>" and i: "i = t"
        by simp_all
      from post_link_bale [OF ok Some None d1] i show ?thesis
        by (intro again) simp_all
    next
      case bs: (Some bo)
      show ?thesis
      proof (cases "t = bo")
        case True
        from merge_link_tg [OF ok bs, of tg now] Some True m
        have d1: "d1 = d\<lparr>users := map (\<lambda>r. if u_id r = bo then r\<lparr>u_tg_user_id := Some tg\<rparr> else r)
                               (users d)\<rparr>" and i: "i = bo"
          by simp_all
        from Some True
        have T': "select_user_id_by_tg d tg = None \<or> select_user_id_by_tg d tg = Some bo"
          by simp
        from post_link_tg [OF ok bs T' d1] i show ?thesis
          by (intro again) simp_all
      next
        case False
        have "truthy (select_user_id_by_tg d tg)" "truthy (select_user_id_by_bale d b)"
          unfolding truthy_select [OF ok] using Some bs by simp_all
        moreover have "select_user_id_by_tg d tg \<noteq> select_user_id_by_bale d b"
          using Some bs False by simp
        ultimately have "merge_user_accounts d now tg b = Inl IntegrityError"
          by (rule merge_conflict)
        with m show ?thesis by simp
      qed
    qed
  qed
qed


theorem merge_user_accounts_idempotent_witness:
  "users_ok empty_store
   \<and> merge_user_accounts empty_store 0 100 200 = Inr (ex_tg_owner, 1)
   \<and> (\<exists>d2. merge_user_accounts ex_tg_owner 5 100 200 = Inr (d2, 1)
           \<and> map u_id (users d2) = map u_id (users ex_tg_owner))
   \<and> merge_user_accounts ex_tg_owner 5 100 200 = Inr (ex_linked_owner, 1)
   \<and> users_ok ex_linked_owner
   \<and> select_user_id_by_tg ex_linked_owner 100 = Some 1
   \<and> select_user_id_by_bale ex_linked_owner 200 = Some 1
   \<and> merge_user_accounts ex_linked_owner 9 100 200 = Inr (ex_linked_owner, 1)
   \<and> users_ok ex_two_owners
   \<and> merge_user_accounts ex_two_owners 3 100 200 = Inl IntegrityError
   \<and> merge_user_accounts ex_two_owners 4 100 200 = Inl IntegrityError"
proof -
  note defs = merge_user_accounts_def select_user_id_by_tg_def select_user_id_by_bale_def
    truthy_def update_users_set_tg_def update_users_set_bale_def reassign_owner_def
    get_or_create_user_by_tg_unfold insert_user_def next_rowid_def Let_def
    empty_store_def ex_tg_owner_def ex_linked_owner_def ex_two_owners_def
  have ok0: "users_ok empty_store" and ok1: "users_ok ex_linked_owner"
    and ok2: "users_ok ex_two_owners"
    by (simp_all add: users_ok_def empty_store_def ex_linked_owner_def ex_two_owners_def)
  have m0: "merge_user_accounts empty_store 0 100 200 = Inr (ex_tg_owner, 1)"
    by (simp add: defs)
  have m1: "merge_user_accounts ex_tg_owner 5 100 200 = Inr (ex_linked_owner, 1)"
    by (simp add: defs)
  have s1: "select_user_id_by_tg ex_linked_owner 100 = Some 1
            \<and> select_user_id_by_bale ex_linked_owner 200 = Some 1"
    by (simp add: defs)
  have m2: "merge_user_accounts ex_two_owners 3 100 200 = Inl IntegrityError"
    by (simp add: defs)
  note t0 = merge_user_accounts_idempotent [OF ok0, of 0 100 200 ex_tg_owner 1 5]
  note t1 = merge_user_accounts_idempotent [OF ok1, of 9 100 200 _ 1]
  note t2 = merge_user_accounts_idempotent [OF ok2, of 3 100 200 _ _ 4 IntegrityError]
  from t0 [THEN conjunct1, THEN mp, OF m0]
       t1 [THEN conjunct2, THEN conjunct2, THEN mp, OF s1]
       t2 [THEN conjunct2, THEN conjunct1, THEN mp, OF m2]
       ok0 ok1 ok2 m0 m1 m2 s1
  show ?thesis by simp
qed

subsection \<open>The schema constraints hold in every reachable store\<close>

text \<open>
  Every store operation keeps the constraints of the users table, so they hold in every
  store that the operations build from the empty one.
\<close>

lemma users_ok_same_users:
  "users d' = users d \<Longrightarrow> users_seq d' = users_seq d \<Longrightarrow> users_ok d' = users_ok d"
  by (simp add: users_ok_def)

lemma users_ok_insert:
  assumes ok: "users_ok d" and ins: "insert_user d tg bale now = Inr d'"
  shows "users_ok d'"
proof -
  let ?n = "next_rowid (users_seq d) (map u_id (users d))"
  let ?row = "\<lparr>u_id = ?n, u_tg_user_id = tg, u_bale_user_id = bale,
                u_dm_target_bale_chat_id = None, u_dm_target_telegram_chat_id = None,
                u_created_at = now\<rparr>"
  from ins have u1: "users d' = users d @ [?row]" and s1: "users_seq d' = ?n"
    and notg: "tg \<noteq> None \<longrightarrow> (\<forall>r\<in>set (users d). u_tg_user_id r \<noteq> tg)"
    and nob: "bale \<noteq> None \<longrightarrow> (\<forall>r\<in>set (users d). u_bale_user_id r \<noteq> bale)"
    by (auto simp: insert_user_def Let_def list_ex_iff split: if_splits)
  have okd: "distinct (map u_id (users d))" and okp: "\<forall>r\<in>set (users d). 0 < u_id r"
    and oks: "0 \<le> users_seq d"
    using ok by (simp_all add: users_ok_def)
  have fresh: "\<forall>r\<in>set (users d). u_id r < ?n"
    using next_rowid_fresh [of "users_seq d" "map u_id (users d)"] by simp
  have pos: "0 < ?n"
    using next_rowid_fresh [of "users_seq d" "map u_id (users d)"] oks by simp
  show ?thesis
    unfolding users_ok_def u1 s1
  proof (intro conjI)
    have "?n \<notin> u_id ` set (users d)"
      using fresh by auto
    then show "distinct (map u_id (users d @ [?row]))"
      using okd by simp
    show "\<forall>r\<in>set (users d @ [?row]). 0 < u_id r"
      using okp pos by simp
    show "0 \<le> ?n" using pos by simp
    show "\<forall>r\<in>set (users d @ [?row]). \<forall>r'\<in>set (users d @ [?row]).
          u_tg_user_id r \<noteq> None \<and> u_tg_user_id r = u_tg_user_id r' \<longrightarrow> u_id r = u_id r'"
    proof (intro ballI impI)
      fix r r'
      assume m: "r \<in> set (users d @ [?row])" "r' \<in> set (users d @ [?row])"
      assume e: "u_tg_user_id r \<noteq> None \<and> u_tg_user_id r = u_tg_user_id r'"
      have uniq: "\<And>x y. x \<in> set (users d) \<Longrightarrow> y \<in> set (users d) \<Longrightarrow>
          u_tg_user_id x \<noteq> None \<and> u_tg_user_id x = u_tg_user_id y \<Longrightarrow> u_id x = u_id y"
        using ok unfolding users_ok_def by blast
      from m have "r = ?row \<or> r \<in> set (users d)" "r' = ?row \<or> r' \<in> set (users d)" by auto
      then show "u_id r = u_id r'"
      proof (elim disjE)
        assume "r = ?row" "r' = ?row" then show ?thesis by simp
      next
        assume a: "r = ?row" "r' \<in> set (users d)"
        from e a(1) have "tg \<noteq> None" "u_tg_user_id r' = tg" by auto
        with notg a(2) show ?thesis by blast
      next
        assume a: "r \<in> set (users d)" "r' = ?row"
        from e a(2) have "tg \<noteq> None" "u_tg_user_id r = tg" by auto
        with notg a(1) show ?thesis by blast
      next
        assume "r \<in> set (users d)" "r' \<in> set (users d)"
        with uniq e show ?thesis by blast
      qed
    qed
    show "\<forall>r\<in>set (users d @ [?row]). \<forall>r'\<in>set (users d @ [?row]).
          u_bale_user_id r \<noteq> None \<and> u_bale_user_id r = u_bale_user_id r' \<longrightarrow> u_id r = u_id r'"
    proof (intro ballI impI)
      fix r r'
      assume m: "r \<in> set (users d @ [?row])" "r' \<in> set (users d @ [?row])"
      assume e: "u_bale_user_id r \<noteq> None \<and> u_bale_user_id r = u_bale_user_id r'"
      have uniq: "\<And>x y. x \<in> set (users d) \<Longrightarrow> y \<in> set (users d) \<Longrightarrow>
          u_bale_user_id x \<noteq> None \<and> u_bale_user_id x = u_bale_user_id y \<Longrightarrow> u_id x = u_id y"
        using ok unfolding users_ok_def by blast
      from m have "r = ?row \<or> r \<in> set (users d)" "r' = ?row \<or> r' \<in> set (users d)" by auto
      then show "u_id r = u_id r'"
      proof (elim disjE)
        assume "r = ?row" "r' = ?row" then show ?thesis by simp
      next
        assume a: "r = ?row" "r' \<in> set (users d)"
        from e a(1) have "bale \<noteq> None" "u_bale_user_id r' = bale" by auto
        with nob a(2) show ?thesis by blast
      next
        assume a: "r \<in> set (users d)" "r' = ?row"
        from e a(2) have "bale \<noteq> None" "u_bale_user_id r = bale" by auto
        with nob a(1) show ?thesis by blast
      next
        assume "r \<in> set (users d)" "r' \<in> set (users d)"
        with uniq e show ?thesis by blast
      qed
    qed
  qed
qed

lemma users_ok_get_or_create:
  assumes ok: "users_ok d"
  shows "get_or_create_user_by_tg d now tg = Inr (d', i) \<Longrightarrow> users_ok d'"
    and "get_or_create_user_by_bale d now b = Inr (d'', j) \<Longrightarrow> users_ok d''"
  using ok
  by (auto simp: get_or_create_user_by_tg_unfold get_or_create_user_by_bale_unfold
           split: option.splits sum.splits intro: users_ok_insert)

lemma users_ok_merge:
  assumes ok: "users_ok d" and m: "merge_user_accounts d now tg b = Inr (d1, i)"
  shows "users_ok d1"
proof (cases "select_user_id_by_tg d tg")
  case None
  show ?thesis
  proof (cases "select_user_id_by_bale d b")
    case bn: None
    from m None bn have "get_or_create_user_by_tg d now tg = Inr (d1, i)"
      by (simp add: merge_user_accounts_def truthy_def)
    then show ?thesis by (rule users_ok_get_or_create(1) [OF ok])
  next
    case (Some bo)
    from None have T': "select_user_id_by_tg d tg = None \<or> select_user_id_by_tg d tg = Some bo"
      by simp
    from merge_link_tg [OF ok Some T', of now] m
    have "d1 = d\<lparr>users := map (\<lambda>r. if u_id r = bo then r\<lparr>u_tg_user_id := Some tg\<rparr> else r)
                               (users d)\<rparr>"
      by simp
    from post_link_tg(1) [OF ok Some T' this] show ?thesis .
  qed
next
  case (Some t)
  show ?thesis
  proof (cases "select_user_id_by_bale d b")
    case None
    from merge_link_bale [OF ok Some None, of now] m
    have "d1 = d\<lparr>users := map (\<lambda>r. if u_id r = t then r\<lparr>u_bale_user_id := Some b\<rparr> else r)
                               (users d)\<rparr>"
      by simp
    from post_link_bale(1) [OF ok Some None this] show ?thesis .
  next
    case bs: (Some bo)
    show ?thesis
    proof (cases "t = bo")
      case True
      from Some True
      have T': "select_user_id_by_tg d tg = None \<or> select_user_id_by_tg d tg = Some bo"
        by simp
      from merge_link_tg [OF ok bs T', of now] m
      have "d1 = d\<lparr>users := map (\<lambda>r. if u_id r = bo then r\<lparr>u_tg_user_id := Some tg\<rparr> else r)
                               (users d)\<rparr>"
        by simp
      from post_link_tg(1) [OF ok bs T' this] show ?thesis .
    next
      case False
      have "truthy (select_user_id_by_tg d tg)" "truthy (select_user_id_by_bale d b)"
        unfolding truthy_select [OF ok] using Some bs by simp_all
      moreover have "select_user_id_by_tg d tg \<noteq> select_user_id_by_bale d b"
        using Some bs False by simp
      ultimately have "merge_user_accounts d now tg b = Inl IntegrityError"
        by (rule merge_conflict)
      with m show ?thesis by simp
    qed
  qed
qed

lemma users_ok_set_dm_target:
  assumes ok: "users_ok d"
  shows "users_ok (set_dm_target_bale d v i)" and "users_ok (set_dm_target_telegram d w i)"
proof -
  have "\<And>f. (\<And>r. u_id (f r) = u_id r) \<Longrightarrow> (\<And>r. u_tg_user_id (f r) = u_tg_user_id r) \<Longrightarrow>
          (\<And>r. u_bale_user_id (f r) = u_bale_user_id r) \<Longrightarrow>
          users_ok (d\<lparr>users := map f (users d)\<rparr>)"
  proof -
    fix f :: "user_row \<Rightarrow> user_row"
    assume f: "\<And>r. u_id (f r) = u_id r" "\<And>r. u_tg_user_id (f r) = u_tg_user_id r"
      "\<And>r. u_bale_user_id (f r) = u_bale_user_id r"
    have "u_id \<circ> f = u_id"
      by (simp add: fun_eq_iff f)
    moreover have o1: "distinct (map u_id (users d))"
      and o2: "\<forall>r\<in>set (users d). 0 < u_id r" and o3: "0 \<le> users_seq d"
      and o4: "\<forall>r\<in>set (users d). \<forall>r'\<in>set (users d).
            u_tg_user_id r \<noteq> None \<and> u_tg_user_id r = u_tg_user_id r' \<longrightarrow> u_id r = u_id r'"
      and o5: "\<forall>r\<in>set (users d). \<forall>r'\<in>set (users d).
            u_bale_user_id r \<noteq> None \<and> u_bale_user_id r = u_bale_user_id r' \<longrightarrow> u_id r = u_id r'"
      using ok unfolding users_ok_def by blast+
    ultimately show "users_ok (d\<lparr>users := map f (users d)\<rparr>)"
      unfolding users_ok_def
    proof (intro conjI)
      assume c: "u_id \<circ> f = u_id"
      show "distinct (map u_id (users (d\<lparr>users := map f (users d)\<rparr>)))"
        using o1 by (simp add: c)
      show "\<forall>r\<in>set (users (d\<lparr>users := map f (users d)\<rparr>)). 0 < u_id r"
        using o2 by (simp add: f)
      show "0 \<le> users_seq (d\<lparr>users := map f (users d)\<rparr>)"
        using o3 by simp
      show "\<forall>r\<in>set (users (d\<lparr>users := map f (users d)\<rparr>)).
          \<forall>r'\<in>set (users (d\<lparr>users := map f (users d)\<rparr>)).
            u_tg_user_id r \<noteq> None \<and> u_tg_user_id r = u_tg_user_id r' \<longrightarrow> u_id r = u_id r'"
        using o4 by (simp add: f)
      show "\<forall>r\<in>set (users (d\<lparr>users := map f (users d)\<rparr>)).
          \<forall>r'\<in>set (users (d\<lparr>users := map f (users d)\<rparr>)).
            u_bale_user_id r \<noteq> None \<and> u_bale_user_id r = u_bale_user_id r' \<longrightarrow> u_id r = u_id r'"
        using o5 by (simp add: f)
    qed
  qed
  note g = this
  show "users_ok (set_dm_target_bale d v i)"
    unfolding set_dm_target_bale_def by (rule g) simp_all
  show "users_ok (set_dm_target_telegram d w i)"
    unfolding set_dm_target_telegram_def by (rule g) simp_all
qed

lemma users_ok_apply_op:
  assumes ok: "users_ok d"
  shows "users_ok (apply_op d x)"
proof (cases x)
  case (Get_or_create_user_by_tg now tg)
  then show ?thesis using ok users_ok_get_or_create(1) [OF ok]
    by (auto split: sum.splits)
next
  case (Get_or_create_user_by_bale now b)
  then show ?thesis using ok users_ok_get_or_create(2) [OF ok]
    by (auto split: sum.splits)
next
  case (Create_verify_code now owner platform chat_type uid picks)
  then have "users (apply_op d x) = users d \<and> users_seq (apply_op d x) = users_seq d"
    by (auto simp: create_verify_code_def insert_verify_token_def Let_def split: sum.splits if_splits)
  then show ?thesis using ok users_ok_same_users by blast
next
  case (Consume_verify_code now c platform uid)
  then have "users (apply_op d x) = users d \<and> users_seq (apply_op d x) = users_seq d"
    by (auto simp: consume_verify_code_def split: option.splits)
  then show ?thesis using ok users_ok_same_users by blast
next
  case (Create_dm_verify_code now owner platform chat_id uuid_hex)
  then have "users (apply_op d x) = users d \<and> users_seq (apply_op d x) = users_seq d"
    by (auto simp: create_dm_verify_code_def insert_dm_verify_token_def Let_def split: sum.splits if_splits)
  then show ?thesis using ok users_ok_same_users by blast
next
  case (Consume_dm_verify_code now c platform chat_id)
  then have "users (apply_op d x) = users d \<and> users_seq (apply_op d x) = users_seq d"
    by (auto simp: consume_dm_verify_code_def split: option.splits)
  then show ?thesis using ok users_ok_same_users by blast
next
  case (Register_chat now owner platform chat_type chat_id title)
  then have "users (apply_op d x) = users d \<and> users_seq (apply_op d x) = users_seq d"
    by (auto simp: register_chat_def Let_def split: sum.splits if_splits)
  then show ?thesis using ok users_ok_same_users by blast
next
  case (Pair_groups now owner tg_id bale_id)
  then have "users (apply_op d x) = users d \<and> users_seq (apply_op d x) = users_seq d"
    by (auto simp: pair_groups_def Let_def split: sum.splits if_splits)
  then show ?thesis using ok users_ok_same_users by blast
next
  case (Pair_channels now owner tg_id bale_id)
  then have "users (apply_op d x) = users d \<and> users_seq (apply_op d x) = users_seq d"
    by (auto simp: pair_channels_def Let_def split: sum.splits if_splits)
  then show ?thesis using ok users_ok_same_users by blast
next
  case (Merge_user_accounts now tg b)
  then show ?thesis using ok users_ok_merge [OF ok]
    by (auto split: sum.splits)
next
  case (Set_dm_target_bale target i)
  then show ?thesis using users_ok_set_dm_target(1) [OF ok] by simp
next
  case (Set_dm_target_telegram target i)
  then show ?thesis using users_ok_set_dm_target(2) [OF ok] by simp
qed

lemma users_ok_run: "users_ok d \<Longrightarrow> users_ok (run d ops)"
  unfolding run_def by (induction ops arbitrary: d) (auto simp: users_ok_apply_op)

lemma users_ok_reachable: "users_ok (run empty_store ops)"
  by (rule users_ok_run) (simp add: users_ok_def empty_store_def)

section \<open>Properties of the handlers\<close>

subsection \<open>The self-loop guard\<close>

lemma startswith_shorter: "startswith s (p @ q) \<Longrightarrow> startswith s p"
  unfolding startswith_def
  by (metis append_eq_conv_conj length_append take_add take_all_iff append_take_drop_id min.cobounded1 take_take)

lemma self_loop_guards:
  "tm_from_user m = Some u \<Longrightarrow> tu_id u = tg_bot_id b \<Longrightarrow>
     on_tg_group_forward b d m = tg_done d []
     \<and> on_tg_channel_post b d m = tg_done d []
     \<and> on_tg_verify_in_group b d now m = tg_done d []"
  "bm_author msg = Some a \<Longrightarrow> ba_id a = bale_self_id b \<Longrightarrow> ba_id a \<noteq> 0 \<Longrightarrow>
     bale_on_message b d wiz now msg = bale_done d wiz []"
  by (simp_all add: on_tg_group_forward_def on_tg_channel_post_def on_tg_verify_in_group_def
        bale_on_message_def)

text \<open>
  Claim C2 says that a message whose author is the bridge bot itself is never forwarded,
  on either platform and for every chat kind. The group, channel and \<^verbatim>\<open>/verify\<close>
  handlers of Telegram and the Bale loop drop such a message before anything else, as
  the lemma above shows. \<^verbatim>\<open>on_tg_dm\<close>, the handler of private Telegram chats, has no
  such guard: a private text whose author is the bot is forwarded to the Bale DM target
  of the owner that carries the bot's Telegram identity.
\<close>

theorem self_loop_private_dm_forwarded:
  "tm_chat_type ex_bot_dm_message = ''private''
   \<and> map_option tu_id (tm_from_user ex_bot_dm_message) = Some (tg_bot_id ex_bots)
   \<and> on_tg_dm ex_bots ex_bot_dm_store 7 ex_bot_dm_message =
       \<lparr>tr_store = ex_bot_dm_store,
        tr_out = [Forward_tg_text_to_bale 555 ''[From Telegram DM] @bridgebot: hi''],
        tr_raised = None\<rparr>
   \<and> list_ex is_forward (tr_out (on_tg_dm ex_bots ex_bot_dm_store 7 ex_bot_dm_message))"
  by (simp add: on_tg_dm_def ex_bots_def ex_bot_dm_store_def ex_bot_dm_message_def
        empty_store_def opt_str_def startswith_def get_or_create_user_by_tg_unfold
        select_user_id_by_tg_def select_dm_target_bale_def truthy_def tg_name_def tg_done_def)

subsection \<open>Routing without a pairing\<close>

text \<open>
  Claim C8. Group and channel routing of a message whose chat has no pairing row, or
  whose pairing row (the one the lookup returns) is disabled, makes no outbound call,
  raises and logs no error, and returns the store as it was. On Telegram the routing
  handlers are \<^verbatim>\<open>on_tg_group_forward\<close> and \<^verbatim>\<open>on_tg_channel_post\<close>; on Bale it is the
  whole message handler, for a group or channel message that is not one of the two
  \<^verbatim>\<open>/verify\<close> commands, which are intercepted before routing.
\<close>

theorem routing_without_link_is_silent:
  "((find_group_link_by_tg d (tm_chat_id m) = None
        \<or> (\<exists>t. find_group_link_by_tg d (tm_chat_id m) = Some (t, False)))
      \<longrightarrow> on_tg_group_forward b d m = \<lparr>tr_store = d, tr_out = [], tr_raised = None\<rparr>)
   \<and> ((find_channel_link_by_tg d (tm_chat_id m) = None
        \<or> (\<exists>t. find_channel_link_by_tg d (tm_chat_id m) = Some (t, False)))
      \<longrightarrow> on_tg_channel_post b d m = \<lparr>tr_store = d, tr_out = [], tr_raised = None\<rparr>)
   \<and> (bm_chat_type msg = ''group'' \<and> \<not> startswith (bale_text msg) ''/verify''
        \<and> (find_group_link_by_bale d (bm_chat_id msg) = None
            \<or> (\<exists>t. find_group_link_by_bale d (bm_chat_id msg) = Some (t, False)))
      \<longrightarrow> bale_on_message b d wiz now msg =
            \<lparr>br_store = d, br_wiz = wiz, br_out = [], br_logged = None\<rparr>)
   \<and> (bm_chat_type msg = ''channel'' \<and> \<not> startswith (bale_text msg) ''/verify''
        \<and> (find_channel_link_by_bale d (bm_chat_id msg) = None
            \<or> (\<exists>t. find_channel_link_by_bale d (bm_chat_id msg) = Some (t, False)))
      \<longrightarrow> bale_on_message b d wiz now msg =
            \<lparr>br_store = d, br_wiz = wiz, br_out = [], br_logged = None\<rparr>)"
proof (intro conjI impI)
  assume "find_group_link_by_tg d (tm_chat_id m) = None
        \<or> (\<exists>t. find_group_link_by_tg d (tm_chat_id m) = Some (t, False))"
  then show "on_tg_group_forward b d m = \<lparr>tr_store = d, tr_out = [], tr_raised = None\<rparr>"
    by (auto simp: on_tg_group_forward_def tg_done_def split: option.splits)
next
  assume "find_channel_link_by_tg d (tm_chat_id m) = None
        \<or> (\<exists>t. find_channel_link_by_tg d (tm_chat_id m) = Some (t, False))"
  then show "on_tg_channel_post b d m = \<lparr>tr_store = d, tr_out = [], tr_raised = None\<rparr>"
    by (auto simp: on_tg_channel_post_def tg_done_def split: option.splits)
next
  assume a: "bm_chat_type msg = ''group'' \<and> \<not> startswith (bale_text msg) ''/verify''
        \<and> (find_group_link_by_bale d (bm_chat_id msg) = None
            \<or> (\<exists>t. find_group_link_by_bale d (bm_chat_id msg) = Some (t, False)))"
  then have "\<not> startswith (bale_text msg) ''/verify_dm''"
    using startswith_shorter [of "bale_text msg" "''/verify''" "''_dm''"] by auto
  moreover from a have "bale_group d wiz msg (bale_text msg)
        (case bm_author msg of None \<Rightarrow> ''unknown'' | Some a \<Rightarrow> bale_name a) = bale_done d wiz []"
    by (auto simp: bale_group_def)
  ultimately show "bale_on_message b d wiz now msg =
            \<lparr>br_store = d, br_wiz = wiz, br_out = [], br_logged = None\<rparr>"
    using a by (simp add: bale_on_message_def bale_done_def Let_def)
next
  assume a: "bm_chat_type msg = ''channel'' \<and> \<not> startswith (bale_text msg) ''/verify''
        \<and> (find_channel_link_by_bale d (bm_chat_id msg) = None
            \<or> (\<exists>t. find_channel_link_by_bale d (bm_chat_id msg) = Some (t, False)))"
  then have "\<not> startswith (bale_text msg) ''/verify_dm''"
    using startswith_shorter [of "bale_text msg" "''/verify''" "''_dm''"] by auto
  moreover from a have "bale_channel d wiz msg (bale_text msg) = bale_done d wiz []"
    by (auto simp: bale_channel_def)
  ultimately show "bale_on_message b d wiz now msg =
            \<lparr>br_store = d, br_wiz = wiz, br_out = [], br_logged = None\<rparr>"
    using a by (simp add: bale_on_message_def bale_done_def Let_def)
qed


theorem routing_without_link_is_silent_witness:
  "find_group_link_by_tg ex_disabled_link 5 = Some (6, False)
   \<and> on_tg_group_forward ex_bots ex_disabled_link (ex_tg_chat_message 5 ''supergroup'') =
       \<lparr>tr_store = ex_disabled_link, tr_out = [], tr_raised = None\<rparr>
   \<and> find_channel_link_by_tg ex_disabled_link 77 = None
   \<and> on_tg_channel_post ex_bots ex_disabled_link (ex_tg_chat_message 77 ''channel'') =
       \<lparr>tr_store = ex_disabled_link, tr_out = [], tr_raised = None\<rparr>
   \<and> find_group_link_by_bale ex_disabled_link 6 = Some (5, False)
   \<and> bale_on_message ex_bots ex_disabled_link Map.empty 9 (ex_bale_chat_message 6 ''group'') =
       \<lparr>br_store = ex_disabled_link, br_wiz = Map.empty, br_out = [], br_logged = None\<rparr>
   \<and> find_channel_link_by_bale ex_disabled_link 78 = None
   \<and> bale_on_message ex_bots ex_disabled_link Map.empty 9 (ex_bale_chat_message 78 ''channel'') =
       \<lparr>br_store = ex_disabled_link, br_wiz = Map.empty, br_out = [], br_logged = None\<rparr>"
proof -
  note links = find_group_link_by_tg_def find_channel_link_by_tg_def find_group_link_by_bale_def
    find_channel_link_by_bale_def ex_disabled_link_def ex_two_owners_def empty_store_def
  note msgs = ex_tg_chat_message_def ex_bale_chat_message_def bale_text_def opt_str_def
    startswith_def
  have g: "find_group_link_by_tg ex_disabled_link (tm_chat_id (ex_tg_chat_message 5 ''supergroup''))
             = Some (6, False)"
    and c: "find_channel_link_by_tg ex_disabled_link (tm_chat_id (ex_tg_chat_message 77 ''channel''))
             = None"
    by (simp_all add: links msgs)
  have bg: "bm_chat_type (ex_bale_chat_message 6 ''group'') = ''group''
      \<and> \<not> startswith (bale_text (ex_bale_chat_message 6 ''group'')) ''/verify''
      \<and> (find_group_link_by_bale ex_disabled_link (bm_chat_id (ex_bale_chat_message 6 ''group'')) = None
        \<or> (\<exists>t. find_group_link_by_bale ex_disabled_link
                  (bm_chat_id (ex_bale_chat_message 6 ''group'')) = Some (t, False)))"
    by (simp add: links msgs)
  have bc: "bm_chat_type (ex_bale_chat_message 78 ''channel'') = ''channel''
      \<and> \<not> startswith (bale_text (ex_bale_chat_message 78 ''channel'')) ''/verify''
      \<and> (find_channel_link_by_bale ex_disabled_link (bm_chat_id (ex_bale_chat_message 78 ''channel'')) = None
        \<or> (\<exists>t. find_channel_link_by_bale ex_disabled_link
                  (bm_chat_id (ex_bale_chat_message 78 ''channel'')) = Some (t, False)))"
    by (simp add: links msgs)
  note t = routing_without_link_is_silent
  have "on_tg_group_forward ex_bots ex_disabled_link (ex_tg_chat_message 5 ''supergroup'') =
       \<lparr>tr_store = ex_disabled_link, tr_out = [], tr_raised = None\<rparr>"
    using g by (intro t [THEN conjunct1, THEN mp]) simp
  moreover have "on_tg_channel_post ex_bots ex_disabled_link (ex_tg_chat_message 77 ''channel'') =
       \<lparr>tr_store = ex_disabled_link, tr_out = [], tr_raised = None\<rparr>"
    using c by (intro t [THEN conjunct2, THEN conjunct1, THEN mp]) simp
  moreover note t [THEN conjunct2, THEN conjunct2, THEN conjunct1, THEN mp, OF bg, of ex_bots Map.empty 9]
    t [THEN conjunct2, THEN conjunct2, THEN conjunct2, THEN mp, OF bc, of ex_bots Map.empty 9]
  moreover have "find_group_link_by_tg ex_disabled_link 5 = Some (6, False)"
    "find_channel_link_by_tg ex_disabled_link 77 = None"
    "find_group_link_by_bale ex_disabled_link 6 = Some (5, False)"
    "find_channel_link_by_bale ex_disabled_link 78 = None"
    by (simp_all add: links)
  ultimately show ?thesis by simp
qed

text \<open>With the same pairing enabled, the same two group messages are forwarded.\<close>

lemma routing_with_link_forwards:
  "on_tg_group_forward ex_bots ex_enabled_link (ex_tg_chat_message 5 ''supergroup'') =
     \<lparr>tr_store = ex_enabled_link,
      tr_out = [Forward_tg_text_to_bale 6 ''Ann sent this message: hello''],
      tr_raised = None\<rparr>"
  "bale_on_message ex_bots ex_enabled_link Map.empty 9 (ex_bale_chat_message 6 ''group'') =
     \<lparr>br_store = ex_enabled_link, br_wiz = Map.empty,
      br_out = [Forward_bale_text_to_tg 5 ''Bo sent this message: hello''],
      br_logged = None\<rparr>"
  by (simp_all add: on_tg_group_forward_def bale_on_message_def bale_group_def
        bale_forward_content_def find_group_link_by_tg_def find_group_link_by_bale_def
        ex_enabled_link_def ex_two_owners_def empty_store_def ex_bots_def
        ex_tg_chat_message_def ex_bale_chat_message_def bale_text_def opt_str_def
        startswith_def tg_name_def bale_name_def join_names_def prefix_with_username_def
        tg_done_def bale_done_def Let_def)

end
